theory Spec2Isabelle
  imports
    Main
    "HOL-Library.AList"
    "HOL-Library.Multiset"
    "HOL-Library.List_Lexorder"
    "HOL-Library.Char_ord"
    "HOL-Library.Word"
begin

section \<open>Resource bodies\<close>

text \<open>
  The Go structs of the Gateway API and of the Knative networking API become records,
  with the fields the reconciler reads or writes. A pointer field is an \<open>option\<close>
  (\<open>None\<close> is \<open>nil\<close>), a slice is a list (a \<open>nil\<close> slice and an empty one are both
  \<open>[]\<close>, which is also how \<open>equality.Semantic.DeepEqual\<close> reads them), a
  \<open>map[string]string\<close> that is only compared or copied is a map \<open>string \<rightharpoonup> string\<close>
  (a \<open>nil\<close> map and an empty one are both \<open>Map.empty\<close>), \<open>int32\<close> is \<open>32 word\<close> and
  \<open>int\<close> is \<open>64 word\<close>. Go strings compare bytewise, as \<open>char list\<close> does under the
  lexicographic order.
\<close>

record OwnerReference =
  ref_UID :: string
  ref_Controller :: bool

record ObjectMeta =
  Name :: string
  Namespace :: string
  UID :: string
  ResourceVersion :: nat
  Labels :: "string \<rightharpoonup> string"
  Annotations :: "string \<rightharpoonup> string"
  OwnerReferences :: "OwnerReference list"

subsection \<open>Gateway and its listeners\<close>

record SecretObjectReference =
  sor_Group :: "string option"
  sor_Kind :: "string option"
  sor_Name :: string
  sor_Namespace :: "string option"

record GatewayTLSConfig =
  tls_Mode :: "string option"
  tls_CertificateRefs :: "SecretObjectReference list"

record RouteNamespaces =
  rn_From :: "string option"
  rn_Selector_MatchLabels :: "(string \<rightharpoonup> string) option"

record AllowedRoutes =
  ar_Namespaces :: "RouteNamespaces option"
  ar_Kinds :: "(string \<times> string) list"

record Listener =
  l_Name :: string
  l_Hostname :: "string option"
  l_Port :: "32 word"
  l_Protocol :: string
  l_TLS :: "GatewayTLSConfig option"
  l_AllowedRoutes :: "AllowedRoutes option"

record Gateway =
  gw_meta :: ObjectMeta
  gw_Listeners :: "Listener list"

subsection \<open>HTTPRoute\<close>

record HTTPHeader =
  hdr_Name :: string
  hdr_Value :: string

record HTTPHeaderMatch =
  hm_Type :: "string option"
  hm_Name :: string
  hm_Value :: string

record HTTPPathMatch =
  pm_Type :: "string option"
  pm_Value :: "string option"

record HTTPRouteMatch =
  m_Path :: "HTTPPathMatch option"
  m_Headers :: "HTTPHeaderMatch list"

record HTTPRequestRedirectFilter =
  rr_Scheme :: "string option"
  rr_Port :: "32 word option"
  rr_StatusCode :: "int option"

record HTTPRouteFilter =
  f_Type :: string
  f_RequestHeaderModifier_Set :: "HTTPHeader list option"
  f_RequestRedirect :: "HTTPRequestRedirectFilter option"

record HTTPBackendRef =
  br_Group :: "string option"
  br_Kind :: "string option"
  br_Port :: "32 word option"
  br_Name :: string
  br_Weight :: "32 word option"
  br_Filters :: "HTTPRouteFilter list"

record HTTPRouteRule =
  r_BackendRefs :: "HTTPBackendRef list"
  r_Filters :: "HTTPRouteFilter list"
  r_Matches :: "HTTPRouteMatch list"

record ParentReference =
  pr_Group :: "string option"
  pr_Kind :: "string option"
  pr_Namespace :: "string option"
  pr_Name :: string
  pr_SectionName :: "string option"

record HTTPRouteSpec =
  ParentRefs :: "ParentReference list"
  Hostnames :: "string list"
  Rules :: "HTTPRouteRule list"

record HTTPRoute =
  hr_meta :: ObjectMeta
  hr_Spec :: HTTPRouteSpec

subsection \<open>ReferenceGrant\<close>

record ReferenceGrantSpec =
  rg_From :: "(string \<times> string \<times> string) list"
  rg_To :: "(string \<times> string \<times> string option) list"

record ReferenceGrant =
  rg_meta :: ObjectMeta
  rg_Spec :: ReferenceGrantSpec

record PartialObjectMetadata =
  pom_Kind :: string
  pom_APIVersion :: string
  pom_Name :: string
  pom_Namespace :: string

subsection \<open>The ingress intent\<close>

text \<open>
  A Go map that the builders range over is kept as the list of its entries, with
  pairwise different keys; the order in which a \<open>range\<close> statement yields them is
  chosen by the runtime and is a parameter of the builders below (\<open>range_order\<close>).
  \<open>AppendHeaders\<close> of a path is tested against \<open>nil\<close>, so there it is an \<open>option\<close>.
  \<open>sp_ServicePort\<close> is the value \<open>ServicePort.IntValue()\<close> returns.
\<close>

type_synonym gomap = "(string \<times> string) list"

record IngressBackendSplit =
  sp_ServiceName :: string
  sp_ServicePort :: "64 word"
  sp_Percent :: "64 word"
  sp_AppendHeaders :: gomap

record HTTPIngressPath =
  p_Path :: string
  p_Headers :: gomap
  p_AppendHeaders :: "gomap option"
  p_Splits :: "IngressBackendSplit list"

record HTTPIngressRuleValue =
  hv_Paths :: "HTTPIngressPath list"

record IngressRule =
  ru_Hosts :: "string list"
  ru_Visibility :: string
  ru_HTTP :: "HTTPIngressRuleValue option"

record IngressTLS =
  t_Hosts :: "string list"
  t_SecretName :: string
  t_SecretNamespace :: string

datatype HTTPOption = HTTPOptionEnabled | HTTPOptionRedirected

record Ingress =
  ing_meta :: ObjectMeta
  ing_TLS :: "IngressTLS list option"
  ing_HTTPOption :: HTTPOption

record GatewayConfig =
  cfg_Gateway_Namespace :: string
  cfg_Gateway_Name :: string
  cfg_HTTPListenerName :: string

section \<open>The store, its cache and the event recorder\<close>

text \<open>
  The API server, the informer caches behind the listers and the event recorder are not
  part of the repository. They are reduced to what the reconciler observes: the objects
  of each kind (a lister reads the same objects the client writes, that is, the cache has
  caught up with the server), an error the listers may return instead of reading, an
  error the server may return for a write, the log of the write calls issued through
  \<open>gwapiclient\<close>, and the recorded events.
\<close>

datatype api_error = NotFound | AlreadyExists | Conflict | ServerError string

datatype request =
    CreateHTTPRoute HTTPRoute
  | UpdateHTTPRoute HTTPRoute
  | CreateReferenceGrant ReferenceGrant
  | UpdateReferenceGrant ReferenceGrant
  | UpdateGateway Gateway

datatype event = Event string string

record cluster =
  httproutes :: "HTTPRoute list"
  referencegrants :: "ReferenceGrant list"
  gateways :: "Gateway list"
  lister_fault :: "api_error option"
  client_fault :: "request \<Rightarrow> api_error option"
  requests :: "request list"
  events :: "event list"

datatype error =
    ApiError api_error
  | NoTLSConfiguration
  | FailedToCreateHTTPRoute api_error
  | FailedToUpdateHTTPRoute api_error
  | FailedToCreateReferenceGrant api_error
  | FailedToUpdateReferenceGrant api_error
  | ReferenceGrantNotOwned string string
  | GatewayDoesNotExist string string api_error
  | FailedToUpdateGateway string string api_error
  | IndexOutOfRange

definition has_key :: "string \<Rightarrow> string \<Rightarrow> ObjectMeta \<Rightarrow> bool" where
  "has_key ns n m \<longleftrightarrow> Namespace m = ns \<and> Name m = n"

definition lister_Get ::
  "cluster \<Rightarrow> ('a \<Rightarrow> ObjectMeta) \<Rightarrow> 'a list \<Rightarrow> string \<Rightarrow> string \<Rightarrow> api_error + 'a" where
  "lister_Get c meta objs ns n =
     (case lister_fault c of
        Some e \<Rightarrow> Inl e
      | None \<Rightarrow>
          (case find (\<lambda>x. has_key ns n (meta x)) objs of
             None \<Rightarrow> Inl NotFound
           | Some x \<Rightarrow> Inr x))"

definition server_create ::
  "('a \<Rightarrow> ObjectMeta) \<Rightarrow> (nat \<Rightarrow> 'a \<Rightarrow> 'a) \<Rightarrow> 'a list \<Rightarrow> 'a \<Rightarrow> api_error + 'a \<times> 'a list" where
  "server_create meta set_rv objs x =
     (case find (\<lambda>y. has_key (Namespace (meta x)) (Name (meta x)) (meta y)) objs of
        Some y \<Rightarrow> Inl AlreadyExists
      | None \<Rightarrow> (let x' = set_rv 1 x in Inr (x', objs @ [x'])))"

definition server_update ::
  "('a \<Rightarrow> ObjectMeta) \<Rightarrow> (nat \<Rightarrow> 'a \<Rightarrow> 'a) \<Rightarrow> 'a list \<Rightarrow> 'a \<Rightarrow> api_error + 'a \<times> 'a list" where
  "server_update meta set_rv objs x =
     (case find (\<lambda>y. has_key (Namespace (meta x)) (Name (meta x)) (meta y)) objs of
        None \<Rightarrow> Inl NotFound
      | Some y \<Rightarrow>
          if ResourceVersion (meta y) \<noteq> ResourceVersion (meta x) then Inl Conflict
          else (let x' = set_rv (Suc (ResourceVersion (meta x))) x in
                Inr (x', map (\<lambda>z. if has_key (Namespace (meta x)) (Name (meta x)) (meta z)
                                   then x' else z) objs)))"

definition issue :: "cluster \<Rightarrow> request \<Rightarrow> cluster" where
  "issue c rq = c\<lparr>requests := requests c @ [rq]\<rparr>"

definition Eventf :: "cluster \<Rightarrow> string \<Rightarrow> string \<Rightarrow> cluster" where
  "Eventf c eventtype reason = c\<lparr>events := events c @ [Event eventtype reason]\<rparr>"

definition gw_set_rv :: "nat \<Rightarrow> Gateway \<Rightarrow> Gateway" where
  "gw_set_rv v g = g\<lparr>gw_meta := (gw_meta g)\<lparr>ResourceVersion := v\<rparr>\<rparr>"

definition hr_set_rv :: "nat \<Rightarrow> HTTPRoute \<Rightarrow> HTTPRoute" where
  "hr_set_rv v r = r\<lparr>hr_meta := (hr_meta r)\<lparr>ResourceVersion := v\<rparr>\<rparr>"

definition rg_set_rv :: "nat \<Rightarrow> ReferenceGrant \<Rightarrow> ReferenceGrant" where
  "rg_set_rv v r = r\<lparr>rg_meta := (rg_meta r)\<lparr>ResourceVersion := v\<rparr>\<rparr>"

definition gatewayLister_Get :: "cluster \<Rightarrow> string \<Rightarrow> string \<Rightarrow> api_error + Gateway" where
  "gatewayLister_Get c ns n = lister_Get c gw_meta (gateways c) ns n"

definition httprouteLister_Get :: "cluster \<Rightarrow> string \<Rightarrow> string \<Rightarrow> api_error + HTTPRoute" where
  "httprouteLister_Get c ns n = lister_Get c hr_meta (httproutes c) ns n"

definition referenceGrantLister_Get ::
  "cluster \<Rightarrow> string \<Rightarrow> string \<Rightarrow> api_error + ReferenceGrant" where
  "referenceGrantLister_Get c ns n = lister_Get c rg_meta (referencegrants c) ns n"

definition Gateways_Update :: "cluster \<Rightarrow> Gateway \<Rightarrow> (api_error + Gateway) \<times> cluster" where
  "Gateways_Update c g =
     (let c1 = issue c (UpdateGateway g) in
      case client_fault c (UpdateGateway g) of
        Some e \<Rightarrow> (Inl e, c1)
      | None \<Rightarrow>
          (case server_update gw_meta gw_set_rv (gateways c) g of
             Inl e \<Rightarrow> (Inl e, c1)
           | Inr (g', gs) \<Rightarrow> (Inr g', c1\<lparr>gateways := gs\<rparr>)))"

definition HTTPRoutes_Create :: "cluster \<Rightarrow> HTTPRoute \<Rightarrow> (api_error + HTTPRoute) \<times> cluster" where
  "HTTPRoutes_Create c r =
     (let c1 = issue c (CreateHTTPRoute r) in
      case client_fault c (CreateHTTPRoute r) of
        Some e \<Rightarrow> (Inl e, c1)
      | None \<Rightarrow>
          (case server_create hr_meta hr_set_rv (httproutes c) r of
             Inl e \<Rightarrow> (Inl e, c1)
           | Inr (r', rs) \<Rightarrow> (Inr r', c1\<lparr>httproutes := rs\<rparr>)))"

definition HTTPRoutes_Update :: "cluster \<Rightarrow> HTTPRoute \<Rightarrow> (api_error + HTTPRoute) \<times> cluster" where
  "HTTPRoutes_Update c r =
     (let c1 = issue c (UpdateHTTPRoute r) in
      case client_fault c (UpdateHTTPRoute r) of
        Some e \<Rightarrow> (Inl e, c1)
      | None \<Rightarrow>
          (case server_update hr_meta hr_set_rv (httproutes c) r of
             Inl e \<Rightarrow> (Inl e, c1)
           | Inr (r', rs) \<Rightarrow> (Inr r', c1\<lparr>httproutes := rs\<rparr>)))"

definition ReferenceGrants_Create ::
  "cluster \<Rightarrow> ReferenceGrant \<Rightarrow> (api_error + ReferenceGrant) \<times> cluster" where
  "ReferenceGrants_Create c r =
     (let c1 = issue c (CreateReferenceGrant r) in
      case client_fault c (CreateReferenceGrant r) of
        Some e \<Rightarrow> (Inl e, c1)
      | None \<Rightarrow>
          (case server_create rg_meta rg_set_rv (referencegrants c) r of
             Inl e \<Rightarrow> (Inl e, c1)
           | Inr (r', rs) \<Rightarrow> (Inr r', c1\<lparr>referencegrants := rs\<rparr>)))"

definition ReferenceGrants_Update ::
  "cluster \<Rightarrow> ReferenceGrant \<Rightarrow> (api_error + ReferenceGrant) \<times> cluster" where
  "ReferenceGrants_Update c r =
     (let c1 = issue c (UpdateReferenceGrant r) in
      case client_fault c (UpdateReferenceGrant r) of
        Some e \<Rightarrow> (Inl e, c1)
      | None \<Rightarrow>
          (case server_update rg_meta rg_set_rv (referencegrants c) r of
             Inl e \<Rightarrow> (Inl e, c1)
           | Inr (r', rs) \<Rightarrow> (Inr r', c1\<lparr>referencegrants := rs\<rparr>)))"

text \<open>
  \<open>metav1.IsControlledBy\<close>: the first owner reference marked as controller carries the
  owner's UID.
\<close>

definition IsControlledBy :: "ObjectMeta \<Rightarrow> ObjectMeta \<Rightarrow> bool" where
  "IsControlledBy obj owner =
     (case find ref_Controller (OwnerReferences obj) of
        None \<Rightarrow> False
      | Some r \<Rightarrow> ref_UID r = UID owner)"

text \<open>
  The order in which \<open>range\<close> yields the entries of a Go map is not specified: it is a
  function that permutes the entries.
\<close>

definition range_order_ok :: "('a list \<Rightarrow> 'a list) \<Rightarrow> bool" where
  "range_order_ok rng \<longleftrightarrow> (\<forall>m. mset (rng m) = mset m)"

section \<open>The listener set merger\<close>

definition listenerPrefix :: string where
  "listenerPrefix = ''kni-''"

type_synonym lmap = "(string \<times> Listener) list"

text \<open>Lines 255 to 258 of \<open>reconcileGatewayListeners\<close>: the lookup by listener name.\<close>

definition build_lmap :: "Listener list \<Rightarrow> lmap" where
  "build_lmap listeners = foldl (\<lambda>m l. AList.update (l_Name l) l m) [] listeners"

text \<open>
  Lines 263 to 277: one pass of the loop over \<open>gw.Spec.Listeners\<close>, at index \<open>i\<close>. The
  loop reads the gateway \<open>gwl\<close> of the cache and writes its copy \<open>upd\<close>.
\<close>

definition scan_step ::
  "Listener list \<Rightarrow> Listener list \<times> lmap \<times> bool \<Rightarrow> nat \<Rightarrow> Listener list \<times> lmap \<times> bool" where
  "scan_step gwl st i =
     (case st of (upd, lmap, updated) \<Rightarrow>
        (let l = gwl ! i in
         case map_of lmap (l_Name l) of
           None \<Rightarrow> (upd, lmap, updated)
         | Some desired \<Rightarrow>
             (let lmap' = AList.delete (l_Name l) lmap in
              if l = desired then (upd, lmap', updated)
              else (upd[i := desired], lmap', True))))"

definition scan_listeners :: "Listener list \<Rightarrow> lmap \<Rightarrow> Listener list \<times> lmap \<times> bool" where
  "scan_listeners gwl lmap = foldl (scan_step gwl) (gwl, lmap, False) [0..<length gwl]"

text \<open>Lines 279 to 283: the listeners left in the lookup are appended.\<close>

definition append_remaining ::
  "(lmap \<Rightarrow> lmap) \<Rightarrow> Listener list \<times> lmap \<times> bool \<Rightarrow> Listener list \<times> bool" where
  "append_remaining rng st =
     (case st of (upd, lmap, updated) \<Rightarrow>
        foldl (\<lambda>(u, d) (k, l). (u @ [l], True)) (upd, updated) (rng lmap))"

text \<open>Lines 253 to 283: the listeners of \<open>update\<close> and the flag \<open>updated\<close>.\<close>

definition merge_listeners ::
  "(lmap \<Rightarrow> lmap) \<Rightarrow> Listener list \<Rightarrow> Listener list \<Rightarrow> Listener list \<times> bool" where
  "merge_listeners rng gwl listeners =
     append_remaining rng (scan_listeners gwl (build_lmap listeners))"

definition reconcileGatewayListeners ::
  "(lmap \<Rightarrow> lmap) \<Rightarrow> Listener list \<Rightarrow> Ingress \<Rightarrow> string \<times> string \<Rightarrow> cluster
     \<Rightarrow> (error + unit) \<times> cluster" where
  "reconcileGatewayListeners rng listeners ing gwName c =
     (case gatewayLister_Get c (fst gwName) (snd gwName) of
        Inl err \<Rightarrow>
          if err = NotFound
          then (Inl (GatewayDoesNotExist (fst gwName) (snd gwName) err),
                Eventf c ''Warning'' ''GatewayMissing'')
          else (Inl (ApiError err), c)
      | Inr gw \<Rightarrow>
          (case merge_listeners rng (gw_Listeners gw) listeners of
             (ls, updated) \<Rightarrow>
               (let update = gw\<lparr>gw_Listeners := ls\<rparr> in
                if updated then
                  (case Gateways_Update c update of
                     (Inl err, c') \<Rightarrow>
                       (Inl (FailedToUpdateGateway (Namespace (gw_meta update))
                               (Name (gw_meta update)) err),
                        Eventf c' ''Warning'' ''GatewayUpdateFailed'')
                   | (Inr g, c') \<Rightarrow> (Inr (), c'))
                else (Inr (), c))))"

text \<open>
  Lines 311 to 320 of \<open>clearGatewayListeners\<close>: \<open>clear_loop listenerName k upd\<close> runs
  the passes for \<open>i = k - 1\<close> down to \<open>0\<close>. An index outside \<open>upd\<close> makes the Go
  runtime panic; the loop then has no result.
\<close>

fun clear_loop :: "string \<Rightarrow> nat \<Rightarrow> Listener list \<Rightarrow> Listener list option" where
  "clear_loop listenerName 0 upd = Some upd"
| "clear_loop listenerName (Suc i) upd =
     (if length upd \<le> i then None
      else if l_Name (upd ! i) = listenerName
      then clear_loop listenerName i
             (take (length upd - 1) (upd[i := upd ! (length upd - 1)]))
      else clear_loop listenerName i upd)"

definition clearGatewayListeners ::
  "Ingress \<Rightarrow> string \<times> string \<Rightarrow> cluster \<Rightarrow> (error + unit) \<times> cluster" where
  "clearGatewayListeners ing gwName c =
     (case gatewayLister_Get c (fst gwName) (snd gwName) of
        Inl err \<Rightarrow> if err = NotFound then (Inr (), c) else (Inl (ApiError err), c)
      | Inr gw \<Rightarrow>
          (let listenerName = listenerPrefix @ UID (ing_meta ing);
               numListeners = length (gw_Listeners gw)
           in case clear_loop listenerName numListeners (gw_Listeners gw) of
                None \<Rightarrow> (Inl IndexOutOfRange, c)
              | Some ls \<Rightarrow>
                  (let update = gw\<lparr>gw_Listeners := ls\<rparr> in
                   if length ls \<noteq> numListeners then
                     (case Gateways_Update c update of
                        (Inl err, c') \<Rightarrow>
                          (Inl (FailedToUpdateGateway (Namespace (gw_meta update))
                                  (Name (gw_meta update)) err),
                           Eventf c' ''Warning'' ''GatewayUpdateFailed'')
                      | (Inr g, c') \<Rightarrow> (Inr (), c'))
                   else (Inr (), c))))"

section \<open>What the functions take from outside the two source files\<close>

text \<open>
  \<open>LongestHost\<close>, \<open>portNumPtr\<close> and \<open>MakeReferenceGrant\<close> are declared in files of the
  repository that are not at hand, \<open>gatewayConfig\<close> is the table
  \<open>config.FromContext(ctx).Gateway.Gateways\<close> read by visibility, and \<open>range_order\<close> is
  the order in which the runtime yields the entries of a header map.

  \<open>LongestHost\<close> is given the slice \<open>rule.Hosts\<close> itself: it may reorder the slice in
  place, and it may panic (on a slice without hosts). The parameter yields the name and
  the hosts as the call leaves them, or \<open>None\<close> when the call panics.

  A panic of the Go runtime ends a call without a return value. A function that can
  panic has an \<open>outcome\<close>: \<open>Panics\<close>, or \<open>Returns\<close> with what the Go function returns.
\<close>

datatype panic = NilPointerDereference | LongestHostPanic

datatype 'a outcome = Panics panic | Returns 'a

record env =
  LongestHost :: "string list \<Rightarrow> (string \<times> string list) option"
  portNumPtr :: "64 word \<Rightarrow> 32 word option"
  MakeReferenceGrant ::
    "Ingress \<Rightarrow> PartialObjectMetadata \<Rightarrow> PartialObjectMetadata \<Rightarrow> ReferenceGrant"
  gatewayConfig :: "string \<Rightarrow> GatewayConfig"
  range_order :: "gomap \<Rightarrow> gomap"

definition IngressVisibilityExternalIP :: string where
  "IngressVisibilityExternalIP = ''ExternalIP''"

definition IngressVisibilityClusterLocal :: string where
  "IngressVisibilityClusterLocal = ''ClusterLocal''"

definition VisibilityLabelKey :: string where
  "VisibilityLabelKey = ''networking.knative.dev/visibility''"

definition LastAppliedConfigAnnotation :: string where
  "LastAppliedConfigAnnotation = ''kubectl.kubernetes.io/last-applied-configuration''"

definition LabelMetadataName :: string where
  "LabelMetadataName = ''kubernetes.io/metadata.name''"

definition GroupName :: string where
  "GroupName = ''gateway.networking.k8s.io''"

definition redirectHTTPRoutePostfix :: string where
  "redirectHTTPRoutePostfix = ''-redirect''"

text \<open>\<open>kmap.Union\<close>: values of the later map win. \<open>kmap.Filter\<close>: the keys that match are left out.\<close>

definition kmap_Union :: "(string \<rightharpoonup> string) \<Rightarrow> (string \<rightharpoonup> string) \<Rightarrow> (string \<rightharpoonup> string)" where
  "kmap_Union a b = a ++ b"

definition kmap_Filter :: "(string \<rightharpoonup> string) \<Rightarrow> (string \<Rightarrow> bool) \<Rightarrow> (string \<rightharpoonup> string)" where
  "kmap_Filter m flt = (\<lambda>k. if flt k then None else m k)"

definition NewControllerRef :: "Ingress \<Rightarrow> OwnerReference" where
  "NewControllerRef ing = \<lparr>ref_UID = UID (ing_meta ing), ref_Controller = True\<rparr>"

section \<open>The resource builder\<close>

text \<open>
  \<open>sort.Sort\<close> orders a list by the \<open>Less\<close> of its interface and is not stable. It is
  written here as an insertion sort; the lists sorted below are built from the entries
  of a map, so their names are pairwise different and every sorting algorithm returns
  the same list (lemma \<open>sorted_by_name_unique\<close>).
\<close>

fun insert_by :: "('a \<Rightarrow> 'a \<Rightarrow> bool) \<Rightarrow> 'a \<Rightarrow> 'a list \<Rightarrow> 'a list" where
  "insert_by lt x [] = [x]"
| "insert_by lt x (y # ys) = (if lt x y then x # y # ys else y # insert_by lt x ys)"

definition sort_Sort :: "('a \<Rightarrow> 'a \<Rightarrow> bool) \<Rightarrow> 'a list \<Rightarrow> 'a list" where
  "sort_Sort lt xs = foldr (insert_by lt) xs []"

definition HTTPHeaderList_Less :: "HTTPHeader \<Rightarrow> HTTPHeader \<Rightarrow> bool" where
  "HTTPHeaderList_Less hi hj \<longleftrightarrow> hdr_Name hi > hdr_Name hj"

definition HTTPHeaderMatchList_Less :: "HTTPHeaderMatch \<Rightarrow> HTTPHeaderMatch \<Rightarrow> bool" where
  "HTTPHeaderMatchList_Less hi hj \<longleftrightarrow> hm_Name hi > hm_Name hj"

text \<open>
  Lines 94 to 104 and 114 to 124 of \<open>makeHTTPRouteRule\<close>: the headers of an
  \<open>AppendHeaders\<close> map, in the order of \<open>range\<close>, then sorted.
\<close>

definition sorted_headers :: "env \<Rightarrow> gomap \<Rightarrow> HTTPHeader list" where
  "sorted_headers env m =
     sort_Sort HTTPHeaderList_Less
       (map (\<lambda>(k, v). \<lparr>hdr_Name = k, hdr_Value = v\<rparr>) (range_order env m))"

definition header_modifier :: "HTTPHeader list \<Rightarrow> HTTPRouteFilter" where
  "header_modifier headers =
     \<lparr>f_Type = ''RequestHeaderModifier'',
      f_RequestHeaderModifier_Set = Some headers,
      f_RequestRedirect = None\<rparr>"

definition matchesFromRulePath :: "env \<Rightarrow> HTTPIngressPath \<Rightarrow> HTTPRouteMatch list" where
  "matchesFromRulePath env path =
     (let pathPrefix = (if p_Path path \<noteq> '''' then p_Path path else ''/'');
          pathMatch = \<lparr>pm_Type = Some ''PathPrefix'', pm_Value = Some pathPrefix\<rparr>;
          headerMatchList =
            map (\<lambda>(k, v). \<lparr>hm_Type = Some ''Exact'', hm_Name = k, hm_Value = v\<rparr>)
              (range_order env (p_Headers path))
      in [\<lparr>m_Path = Some pathMatch,
           m_Headers = sort_Sort HTTPHeaderMatchList_Less headerMatchList\<rparr>])"

definition makeBackendRef :: "env \<Rightarrow> IngressBackendSplit \<Rightarrow> HTTPBackendRef" where
  "makeBackendRef env split =
     \<lparr>br_Group = Some '''',
      br_Kind = Some ''Service'',
      br_Port = portNumPtr env (sp_ServicePort split),
      br_Name = sp_ServiceName split,
      br_Weight = Some (ucast (sp_Percent split)),
      br_Filters = [header_modifier (sorted_headers env (sp_AppendHeaders split))]\<rparr>"

text \<open>
  \<open>rule.HTTP\<close> is a pointer: ranging over \<open>rule.HTTP.Paths\<close> (lines 89 and 208) panics
  when it is \<open>nil\<close>.
\<close>

definition makeHTTPRouteRule :: "env \<Rightarrow> IngressRule \<Rightarrow> HTTPRouteRule list outcome" where
  "makeHTTPRouteRule env rule =
     (case ru_HTTP rule of
        None \<Rightarrow> Panics NilPointerDereference
      | Some http \<Rightarrow>
          Returns
            (map (\<lambda>path.
               \<lparr>r_BackendRefs = map (makeBackendRef env) (p_Splits path),
                r_Filters =
                  (case p_AppendHeaders path of
                     None \<Rightarrow> []
                   | Some m \<Rightarrow> [header_modifier (sorted_headers env m)]),
                r_Matches = matchesFromRulePath env path\<rparr>)
              (hv_Paths http)))"

definition makeHTTPRouteSpec ::
  "env \<Rightarrow> IngressRule \<Rightarrow> ParentReference \<Rightarrow> HTTPRouteSpec outcome" where
  "makeHTTPRouteSpec env rule gatewayRef =
     (case makeHTTPRouteRule env rule of
        Panics p \<Rightarrow> Panics p
      | Returns rules \<Rightarrow>
          Returns \<lparr>ParentRefs = [gatewayRef], Hostnames = ru_Hosts rule, Rules = rules\<rparr>)"

definition route_meta :: "string \<Rightarrow> Ingress \<Rightarrow> IngressRule \<Rightarrow> ObjectMeta" where
  "route_meta n ing rule =
     (let visibility =
            (if ru_Visibility rule = IngressVisibilityClusterLocal then ''cluster-local'' else '''')
      in \<lparr>Name = n,
          Namespace = Namespace (ing_meta ing),
          UID = '''',
          ResourceVersion = 0,
          Labels = kmap_Union (Labels (ing_meta ing)) [VisibilityLabelKey \<mapsto> visibility],
          Annotations =
            kmap_Filter (Annotations (ing_meta ing)) (\<lambda>key. key = LastAppliedConfigAnnotation),
          OwnerReferences = [NewControllerRef ing]\<rparr>)"

text \<open>
  The fields of the returned literal are evaluated in their order: \<open>LongestHost\<close> is
  called for the name before \<open>makeHTTPRouteSpec\<close> reads \<open>rule.Hosts\<close>, so the spec has
  the hosts as \<open>LongestHost\<close> left them. The error returned is always \<open>nil\<close> (\<open>Inr\<close>).
\<close>

definition MakeHTTPRoute ::
  "env \<Rightarrow> Ingress \<Rightarrow> IngressRule \<Rightarrow> ParentReference \<Rightarrow> (error + HTTPRoute) outcome" where
  "MakeHTTPRoute env ing rule gatewayRef =
     (case LongestHost env (ru_Hosts rule) of
        None \<Rightarrow> Panics LongestHostPanic
      | Some (n, hosts) \<Rightarrow>
          (case makeHTTPRouteSpec env (rule\<lparr>ru_Hosts := hosts\<rparr>) gatewayRef of
             Panics p \<Rightarrow> Panics p
           | Returns spec \<Rightarrow>
               Returns (Inr \<lparr>hr_meta = route_meta n ing rule, hr_Spec = spec\<rparr>)))"

definition makeRedirectHTTPRouteRule :: "env \<Rightarrow> IngressRule \<Rightarrow> HTTPRouteRule list outcome" where
  "makeRedirectHTTPRouteRule env rule =
     (case ru_HTTP rule of
        None \<Rightarrow> Panics NilPointerDereference
      | Some http \<Rightarrow>
          Returns
            (map (\<lambda>path.
               \<lparr>r_BackendRefs = [],
                r_Filters =
                  [\<lparr>f_Type = ''RequestRedirect'',
                    f_RequestHeaderModifier_Set = None,
                    f_RequestRedirect =
                      Some \<lparr>rr_Scheme = Some ''https'',
                            rr_Port = portNumPtr env 443,
                            rr_StatusCode = Some 301\<rparr>\<rparr>],
                r_Matches = matchesFromRulePath env path\<rparr>)
              (hv_Paths http)))"

definition makeRedirectHTTPRouteSpec ::
  "env \<Rightarrow> IngressRule \<Rightarrow> ParentReference \<Rightarrow> HTTPRouteSpec outcome" where
  "makeRedirectHTTPRouteSpec env rule gatewayRef =
     (case makeRedirectHTTPRouteRule env rule of
        Panics p \<Rightarrow> Panics p
      | Returns rules \<Rightarrow>
          Returns \<lparr>ParentRefs = [gatewayRef], Hostnames = ru_Hosts rule, Rules = rules\<rparr>)"

definition MakeRedirectHTTPRoute ::
  "env \<Rightarrow> Ingress \<Rightarrow> IngressRule \<Rightarrow> ParentReference \<Rightarrow> (error + HTTPRoute) outcome" where
  "MakeRedirectHTTPRoute env ing rule gatewayRef =
     (case LongestHost env (ru_Hosts rule) of
        None \<Rightarrow> Panics LongestHostPanic
      | Some (n, hosts) \<Rightarrow>
          (case makeRedirectHTTPRouteSpec env (rule\<lparr>ru_Hosts := hosts\<rparr>) gatewayRef of
             Panics p \<Rightarrow> Panics p
           | Returns spec \<Rightarrow>
               Returns (Inr \<lparr>hr_meta = route_meta (n @ redirectHTTPRoutePostfix) ing rule,
                             hr_Spec = spec\<rparr>)))"

section \<open>The convergence engine\<close>

definition reconcileHTTPRoute ::
  "Ingress \<Rightarrow> HTTPRoute \<Rightarrow> cluster \<Rightarrow> (error + HTTPRoute) \<times> cluster" where
  "reconcileHTTPRoute ing desired c =
     (case httprouteLister_Get c (Namespace (ing_meta ing)) (Name (hr_meta desired)) of
        Inl err \<Rightarrow>
          if err = NotFound then
            (case HTTPRoutes_Create c desired of
               (Inl err', c') \<Rightarrow>
                 (Inl (FailedToCreateHTTPRoute err'), Eventf c' ''Warning'' ''CreationFailed'')
             | (Inr httpRoute, c') \<Rightarrow> (Inr httpRoute, Eventf c' ''Normal'' ''Created''))
          else (Inl (ApiError err), c)
      | Inr httpRoute \<Rightarrow>
          if hr_Spec httpRoute \<noteq> hr_Spec desired \<or>
             Annotations (hr_meta httpRoute) \<noteq> Annotations (hr_meta desired) \<or>
             Labels (hr_meta httpRoute) \<noteq> Labels (hr_meta desired)
          then
            (let origin = httpRoute
                   \<lparr>hr_Spec := hr_Spec desired,
                    hr_meta := (hr_meta httpRoute)
                      \<lparr>Annotations := Annotations (hr_meta desired),
                       Labels := Labels (hr_meta desired)\<rparr>\<rparr>
             in case HTTPRoutes_Update c origin of
                  (Inl err', c') \<Rightarrow>
                    (Inl (FailedToUpdateHTTPRoute err'), Eventf c' ''Warning'' ''UpdateFailed'')
                | (Inr updated, c') \<Rightarrow> (Inr updated, c'))
          else (Inr httpRoute, c))"

definition gateway_parent :: "GatewayConfig \<Rightarrow> string option \<Rightarrow> ParentReference" where
  "gateway_parent cfg section =
     \<lparr>pr_Group = Some GroupName,
      pr_Kind = Some ''Gateway'',
      pr_Namespace = Some (cfg_Gateway_Namespace cfg),
      pr_Name = cfg_Gateway_Name cfg,
      pr_SectionName = section\<rparr>"

definition reconcileWorkloadRoute ::
  "env \<Rightarrow> Ingress \<Rightarrow> IngressRule \<Rightarrow> cluster \<Rightarrow> ((error + HTTPRoute) \<times> cluster) outcome" where
  "reconcileWorkloadRoute env ing rule c =
     (let cfg = gatewayConfig env (ru_Visibility rule);
          gatewayRef =
            (if ing_HTTPOption ing = HTTPOptionRedirected \<and>
                ru_Visibility rule = IngressVisibilityExternalIP
             then gateway_parent cfg (Some (listenerPrefix @ UID (ing_meta ing)))
             else gateway_parent cfg None)
      in case MakeHTTPRoute env ing rule gatewayRef of
           Panics p \<Rightarrow> Panics p
         | Returns (Inl err) \<Rightarrow> Returns (Inl err, c)
         | Returns (Inr desired) \<Rightarrow> Returns (reconcileHTTPRoute ing desired c))"


text \<open>Lines 203 to 235 of \<open>reconcileTLS\<close>: the listener derived for one TLS host.\<close>

definition tls_listener :: "Ingress \<Rightarrow> IngressTLS \<Rightarrow> string \<Rightarrow> Listener" where
  "tls_listener ing tls h =
     \<lparr>l_Name = listenerPrefix @ UID (ing_meta ing),
      l_Hostname = Some h,
      l_Port = 443,
      l_Protocol = ''HTTPS'',
      l_TLS = Some
        \<lparr>tls_Mode = Some ''Terminate'',
         tls_CertificateRefs =
           [\<lparr>sor_Group = Some '''',
             sor_Kind = Some ''Secret'',
             sor_Name = t_SecretName tls,
             sor_Namespace = Some (t_SecretNamespace tls)\<rparr>]\<rparr>,
      l_AllowedRoutes = Some
        \<lparr>ar_Namespaces = Some
           \<lparr>rn_From = Some ''Selector'',
            rn_Selector_MatchLabels = Some [LabelMetadataName \<mapsto> Namespace (ing_meta ing)]\<rparr>,
         ar_Kinds = []\<rparr>\<rparr>"

text \<open>Lines 172 to 183 of \<open>reconcileTLS\<close>: the grant read from the cache, or created.\<close>

definition get_or_create_grant ::
  "ReferenceGrant \<Rightarrow> cluster \<Rightarrow> (error + ReferenceGrant) \<times> cluster" where
  "get_or_create_grant desired c =
     (case referenceGrantLister_Get c (Namespace (rg_meta desired)) (Name (rg_meta desired)) of
        Inl err \<Rightarrow>
          if err = NotFound then
            (case ReferenceGrants_Create c desired of
               (Inl err', c') \<Rightarrow>
                 (Inl (FailedToCreateReferenceGrant err'),
                  Eventf c' ''Warning'' ''CreationFailed'')
             | (Inr rp, c') \<Rightarrow> (Inr rp, c'))
          else (Inl (ApiError err), c)
      | Inr rp \<Rightarrow> (Inr rp, c))"

text \<open>Lines 146 to 170 of \<open>reconcileTLS\<close>: the desired grant.\<close>

definition desired_grant :: "env \<Rightarrow> IngressTLS \<Rightarrow> Ingress \<Rightarrow> ReferenceGrant" where
  "desired_grant env tls ing =
     (let externalGw = gatewayConfig env IngressVisibilityExternalIP;
          gateway =
            \<lparr>pom_Kind = ''Gateway'',
             pom_APIVersion = ''gateway.networking.k8s.io/v1beta1'',
             pom_Name = cfg_Gateway_Name externalGw,
             pom_Namespace = cfg_Gateway_Namespace externalGw\<rparr>;
          secret =
            \<lparr>pom_Kind = ''Secret'',
             pom_APIVersion = ''v1'',
             pom_Name = t_SecretName tls,
             pom_Namespace = t_SecretNamespace tls\<rparr>
      in MakeReferenceGrant env ing secret gateway)"

definition reconcileTLS ::
  "env \<Rightarrow> IngressTLS \<Rightarrow> Ingress \<Rightarrow> cluster \<Rightarrow> (error + Listener list) \<times> cluster" where
  "reconcileTLS env tls ing c =
     (let desired = desired_grant env tls ing
      in case get_or_create_grant desired c of
           (Inl err, c1) \<Rightarrow> (Inl err, c1)
         | (Inr rp, c1) \<Rightarrow>
             if \<not> IsControlledBy (rg_meta rp) (ing_meta ing)
             then (Inl (ReferenceGrantNotOwned (Name (rg_meta rp)) (Name (ing_meta ing))),
                   Eventf c1 ''Warning'' ''NotOwned'')
             else if rg_Spec rp \<noteq> rg_Spec desired
             then
               (case ReferenceGrants_Update c1 (rp\<lparr>rg_Spec := rg_Spec desired\<rparr>) of
                  (Inl err', c2) \<Rightarrow>
                    (Inl (FailedToUpdateReferenceGrant err'),
                     Eventf c2 ''Warning'' ''UpdateFailed'')
                | (Inr u, c2) \<Rightarrow> (Inr (map (tls_listener ing tls) (t_Hosts tls)), c2))
             else (Inr (map (tls_listener ing tls) (t_Hosts tls)), c1))"

section \<open>Auxiliary notions for the statements\<close>

text \<open>
  \<open>first_at gwl j\<close>: no earlier entry of the sequence has the name of entry \<open>j\<close>.
  \<open>scanned gwl lmap k j\<close>: entry \<open>j\<close> of the copy after the first \<open>k\<close> passes of the loop
  over the gateway's listeners.
\<close>

definition first_at :: "Listener list \<Rightarrow> nat \<Rightarrow> bool" where
  "first_at gwl j \<longleftrightarrow> l_Name (gwl ! j) \<notin> l_Name ` set (take j gwl)"

definition scanned :: "Listener list \<Rightarrow> lmap \<Rightarrow> nat \<Rightarrow> nat \<Rightarrow> Listener" where
  "scanned gwl lmap0 k j =
     (if j < k \<and> first_at gwl j
      then (case map_of lmap0 (l_Name (gwl ! j)) of Some d \<Rightarrow> d | None \<Rightarrow> gwl ! j)
      else gwl ! j)"

text \<open>
  The keys of a Go map are pairwise different: \<open>wf_rule\<close> says so for every header map
  of an ingress rule.
\<close>

definition wf_split :: "IngressBackendSplit \<Rightarrow> bool" where
  "wf_split s \<longleftrightarrow> distinct (map fst (sp_AppendHeaders s))"

definition wf_path :: "HTTPIngressPath \<Rightarrow> bool" where
  "wf_path p \<longleftrightarrow>
     distinct (map fst (p_Headers p)) \<and>
     (case p_AppendHeaders p of None \<Rightarrow> True | Some m \<Rightarrow> distinct (map fst m)) \<and>
     list_all wf_split (p_Splits p)"

definition wf_rule :: "IngressRule \<Rightarrow> bool" where
  "wf_rule r \<longleftrightarrow>
     (case ru_HTTP r of None \<Rightarrow> True | Some http \<Rightarrow> list_all wf_path (hv_Paths http))"


section \<open>Concrete inputs\<close>

definition ex_meta :: "string \<Rightarrow> string \<Rightarrow> string \<Rightarrow> ObjectMeta" where
  "ex_meta ns n u =
     \<lparr>Name = n, Namespace = ns, UID = u, ResourceVersion = 1, Labels = Map.empty,
      Annotations = Map.empty, OwnerReferences = []\<rparr>"

definition ex_listener :: "string \<Rightarrow> string \<Rightarrow> Listener" where
  "ex_listener n h =
     \<lparr>l_Name = n, l_Hostname = Some h, l_Port = 443, l_Protocol = ''HTTPS'',
      l_TLS = None, l_AllowedRoutes = None\<rparr>"

definition ex_gateway :: "Listener list \<Rightarrow> Gateway" where
  "ex_gateway ls = \<lparr>gw_meta = ex_meta ''istio-system'' ''gw'' ''g1'', gw_Listeners = ls\<rparr>"

definition ex_cluster :: "Listener list \<Rightarrow> cluster" where
  "ex_cluster ls =
     \<lparr>httproutes = [], referencegrants = [], gateways = [ex_gateway ls],
      lister_fault = None, client_fault = (\<lambda>rq. None), requests = [], events = []\<rparr>"

definition ex_tls :: "string list \<Rightarrow> IngressTLS" where
  "ex_tls hs = \<lparr>t_Hosts = hs, t_SecretName = ''tls-secret'', t_SecretNamespace = ''ns1''\<rparr>"

definition ex_ingress :: "IngressTLS list option \<Rightarrow> Ingress" where
  "ex_ingress tls =
     \<lparr>ing_meta = ex_meta ''ns1'' ''ing'' ''u1'', ing_TLS = tls,
      ing_HTTPOption = HTTPOptionRedirected\<rparr>"

text \<open>
  An instance of \<open>LongestHost\<close>: the hosts are sorted in place, longest first, and the
  first is the name; there is no first host in an empty slice.
\<close>

definition ex_LongestHost :: "string list \<Rightarrow> (string \<times> string list) option" where
  "ex_LongestHost hosts =
     (case sort_Sort (\<lambda>a b. length b < length a) hosts of
        [] \<Rightarrow> None
      | h # hs \<Rightarrow> Some (h, h # hs))"

definition ex_env :: env where
  "ex_env =
     \<lparr>LongestHost = ex_LongestHost,
      portNumPtr = (\<lambda>p. Some (ucast p)),
      MakeReferenceGrant = (\<lambda>ing secret gateway.
        \<lparr>rg_meta =
           \<lparr>Name = pom_Name secret @ ''-'' @ pom_Namespace gateway,
            Namespace = pom_Namespace secret, UID = '''', ResourceVersion = 0,
            Labels = Labels (ing_meta ing), Annotations = Map.empty,
            OwnerReferences = [NewControllerRef ing]\<rparr>,
         rg_Spec =
           \<lparr>rg_From = [(''gateway.networking.k8s.io'', pom_Kind gateway, pom_Namespace gateway)],
            rg_To = [('''', pom_Kind secret, Some (pom_Name secret))]\<rparr>\<rparr>),
      gatewayConfig = (\<lambda>v.
        \<lparr>cfg_Gateway_Namespace = ''istio-system'', cfg_Gateway_Name = ''gw'',
         cfg_HTTPListenerName = ''http''\<rparr>),
      range_order = id\<rparr>"

definition ex_rule :: IngressRule where
  "ex_rule =
     \<lparr>ru_Hosts = [''a.example.com''], ru_Visibility = ''ExternalIP'',
      ru_HTTP = Some \<lparr>hv_Paths =
        [\<lparr>p_Path = ''/'',
          p_Headers = [(''x-b'', ''1''), (''x-a'', ''2'')],
          p_AppendHeaders = Some [(''k1'', ''v1''), (''k2'', ''v2'')],
          p_Splits =
            [\<lparr>sp_ServiceName = ''svc1'', sp_ServicePort = 80, sp_Percent = 100,
              sp_AppendHeaders = [(''s1'', ''t1''), (''s2'', ''t2'')]\<rparr>]\<rparr>]\<rparr>\<rparr>"

definition ex_route :: HTTPRoute where
  "ex_route =
     \<lparr>hr_meta = ex_meta ''ns1'' ''a.example.com'' [],
      hr_Spec = \<lparr>ParentRefs = [], Hostnames = [''a.example.com''], Rules = []\<rparr>\<rparr>"

definition ex_foreign_grant :: ReferenceGrant where
  "ex_foreign_grant =
     \<lparr>rg_meta = (ex_meta ''ns1'' ''tls-secret-istio-system'' ''r1'')
        \<lparr>OwnerReferences := [\<lparr>ref_UID = ''u2'', ref_Controller = True\<rparr>]\<rparr>,
      rg_Spec = \<lparr>rg_From = [], rg_To = []\<rparr>\<rparr>"

definition ex_cluster_with_grant :: cluster where
  "ex_cluster_with_grant = (ex_cluster [])\<lparr>referencegrants := [ex_foreign_grant]\<rparr>"

section \<open>Unfolding the store and the concrete inputs\<close>

lemmas ex_defs =
  ex_env_def ex_cluster_def ex_gateway_def ex_meta_def ex_listener_def ex_tls_def
  ex_ingress_def ex_rule_def ex_route_def ex_LongestHost_def

lemmas store_defs =
  lister_Get_def gatewayLister_Get_def httprouteLister_Get_def referenceGrantLister_Get_def
  server_create_def server_update_def issue_def Eventf_def gw_set_rv_def hr_set_rv_def
  rg_set_rv_def Gateways_Update_def HTTPRoutes_Create_def HTTPRoutes_Update_def
  ReferenceGrants_Create_def ReferenceGrants_Update_def has_key_def IsControlledBy_def
  Let_def

lemmas merge_defs =
  merge_listeners_def append_remaining_def scan_listeners_def scan_step_def build_lmap_def
  AList.delete_eq upt_rec

section \<open>Properties of the listener set merger\<close>

subsection \<open>The loop over the gateway's listeners\<close>

lemma map_of_filter_key:
  "map_of (filter (\<lambda>(x, _). P x) xs) k = (if P k then map_of xs k else None)"
  by (induction xs) auto

lemma filter_absent_key:
  "map_of xs k = None \<Longrightarrow> filter (\<lambda>(x, _). x \<noteq> k \<and> P x) xs = filter (\<lambda>(x, _). P x) xs"
  by (induction xs) (auto split: if_splits)

lemma scan_inv:
  assumes "k \<le> length gwl"
  shows "foldl (scan_step gwl) (gwl, lmap0, False) [0..<k] =
     (map (scanned gwl lmap0 k) [0..<length gwl],
      filter (\<lambda>(x, _). x \<notin> l_Name ` set (take k gwl)) lmap0,
      \<exists>j<k. first_at gwl j \<and> (\<exists>d. map_of lmap0 (l_Name (gwl ! j)) = Some d \<and> d \<noteq> gwl ! j))"
  using assms
proof (induction k)
  case 0
  then show ?case by (simp add: map_nth scanned_def)
next
  case (Suc k)
  let ?n = "l_Name (gwl ! k)"
  let ?seen = "l_Name ` set (take k gwl)"
  let ?F = "filter (\<lambda>(x, _). x \<notin> ?seen) lmap0"
  from Suc.prems have k: "k < length gwl" by simp
  have seen: "l_Name ` set (take (Suc k) gwl) = insert ?n ?seen"
    using k by (simp add: take_Suc_conv_app_nth)
  have look: "map_of ?F ?n = (if first_at gwl k then map_of lmap0 ?n else None)"
    by (simp add: map_of_filter_key first_at_def)
  have Fnext: "filter (\<lambda>(x, _). x \<notin> insert ?n ?seen) lmap0 = AList.delete ?n ?F"
    by (simp add: AList.delete_eq case_prod_unfold) (metis)
  have same: "map (scanned gwl lmap0 (Suc k)) [0..<length gwl] = map (scanned gwl lmap0 k) [0..<length gwl]"
    if "scanned gwl lmap0 (Suc k) k = gwl ! k"
    using that by (auto simp: scanned_def less_Suc_eq)
  have upd: "map (scanned gwl lmap0 (Suc k)) [0..<length gwl] = (map (scanned gwl lmap0 k) [0..<length gwl])[k := d]"
    if "first_at gwl k" "map_of lmap0 ?n = Some d" for d
    using that k by (intro nth_equalityI) (auto simp: scanned_def less_Suc_eq nth_list_update)
  have step: "foldl (scan_step gwl) (gwl, lmap0, False) [0..<Suc k] =
      scan_step gwl (map (scanned gwl lmap0 k) [0..<length gwl], ?F,
        \<exists>j<k. first_at gwl j \<and> (\<exists>d. map_of lmap0 (l_Name (gwl ! j)) = Some d \<and> d \<noteq> gwl ! j)) k"
    using Suc.IH k by simp
  show ?case
  proof (cases "map_of ?F ?n")
    case None
    then have nohit: "\<not> first_at gwl k \<or> map_of lmap0 ?n = None"
      using look by (auto split: if_splits)
    then have a: "scanned gwl lmap0 (Suc k) k = gwl ! k"
      by (auto simp: scanned_def)
    have b: "filter (\<lambda>(x, _). x \<notin> insert ?n ?seen) lmap0 = ?F"
    proof (cases "first_at gwl k")
      case True
      with nohit have "map_of lmap0 ?n = None" by simp
      from filter_absent_key[OF this, of "\<lambda>x. x \<notin> ?seen"] show ?thesis by simp
    next
      case False
      then have "insert ?n ?seen = ?seen" by (auto simp: first_at_def)
      then show ?thesis by simp
    qed
    have c: "(\<exists>j<Suc k. first_at gwl j \<and> (\<exists>d. map_of lmap0 (l_Name (gwl ! j)) = Some d \<and> d \<noteq> gwl ! j))
        = (\<exists>j<k. first_at gwl j \<and> (\<exists>d. map_of lmap0 (l_Name (gwl ! j)) = Some d \<and> d \<noteq> gwl ! j))"
      using nohit by (auto simp: less_Suc_eq)
    show ?thesis
      unfolding step seen same[OF a] b c using None by (simp add: scan_step_def)
  next
    case (Some d)
    then have hit: "first_at gwl k" "map_of lmap0 ?n = Some d"
      using look by (auto split: if_splits)
    show ?thesis
    proof (cases "gwl ! k = d")
      case True
      then have a: "scanned gwl lmap0 (Suc k) k = gwl ! k"
        using hit by (simp add: scanned_def)
      have c: "(\<exists>j<Suc k. first_at gwl j \<and> (\<exists>d. map_of lmap0 (l_Name (gwl ! j)) = Some d \<and> d \<noteq> gwl ! j))
        = (\<exists>j<k. first_at gwl j \<and> (\<exists>d. map_of lmap0 (l_Name (gwl ! j)) = Some d \<and> d \<noteq> gwl ! j))"
        using hit True by (auto simp: less_Suc_eq)
      show ?thesis
        unfolding step seen same[OF a] Fnext c using Some True by (simp add: scan_step_def)
    next
      case False
      have c: "(\<exists>j<Suc k. first_at gwl j \<and> (\<exists>d. map_of lmap0 (l_Name (gwl ! j)) = Some d \<and> d \<noteq> gwl ! j))"
        using hit False by auto
      show ?thesis
        unfolding step seen upd[OF hit] Fnext using Some False c by (simp add: scan_step_def)
    qed
  qed
qed


lemma append_remaining_eq:
  "append_remaining rng (upd, lmap, updated) = (upd @ map snd (rng lmap), updated \<or> rng lmap \<noteq> [])"
proof -
  have "foldl (\<lambda>(u, d) (k, l). (u @ [l], True)) (u0, d0) xs = (u0 @ map snd xs, d0 \<or> xs \<noteq> [])"
    for xs :: lmap and u0 d0
    by (induction xs arbitrary: u0 d0) auto
  then show ?thesis by (simp add: append_remaining_def)
qed

lemma find_app:
  "find P (xs @ ys) = (case find P xs of None \<Rightarrow> find P ys | Some x \<Rightarrow> Some x)"
  by (induction xs) auto

lemma build_lmap_acc:
  "map_of (foldl (\<lambda>m l. AList.update (l_Name l) l m) m0 ls) n =
     (case find (\<lambda>l. l_Name l = n) (rev ls) of Some l \<Rightarrow> Some l | None \<Rightarrow> map_of m0 n)"
  by (induction ls arbitrary: m0) (auto simp: update_conv' find_app split: option.splits)

lemma build_lmap_lookup:
  "map_of (build_lmap ls) n = find (\<lambda>l. l_Name l = n) (rev ls)"
  by (simp add: build_lmap_def build_lmap_acc split: option.splits)

lemma build_lmap_None: "map_of (build_lmap ls) n = None \<longleftrightarrow> n \<notin> l_Name ` set ls"
  by (auto simp: build_lmap_lookup find_None_iff)

lemma build_lmap_distinct: "distinct (map fst (build_lmap ls))"
proof -
  have "distinct (map fst m0) \<Longrightarrow> distinct (map fst (foldl (\<lambda>m l. AList.update (l_Name l) l m) m0 ls))" for m0
    by (induction ls arbitrary: m0) (auto simp: distinct_update)
  then show ?thesis by (simp add: build_lmap_def)
qed

lemma build_lmap_keys: "set (map fst (build_lmap ls)) = l_Name ` set ls"
proof -
  have "set (map fst (build_lmap ls)) = dom (map_of (build_lmap ls))"
    by (simp add: dom_map_of_conv_image_fst)
  also have "\<dots> = l_Name ` set ls"
    using build_lmap_None[of ls] by (auto simp: dom_def)
  finally show ?thesis .
qed

lemma merge_listeners_eq:
  "merge_listeners rng gwl listeners =
     (map (scanned gwl (build_lmap listeners) (length gwl)) [0..<length gwl] @
        map snd (rng (filter (\<lambda>(x, _). x \<notin> l_Name ` set gwl) (build_lmap listeners))),
      (\<exists>j<length gwl. first_at gwl j \<and>
          (\<exists>d. map_of (build_lmap listeners) (l_Name (gwl ! j)) = Some d \<and> d \<noteq> gwl ! j)) \<or>
      rng (filter (\<lambda>(x, _). x \<notin> l_Name ` set gwl) (build_lmap listeners)) \<noteq> [])"
  by (simp add: merge_listeners_def scan_listeners_def scan_inv append_remaining_eq)

lemma merge_listeners_foreign:
  assumes "i < length gwl" and "l_Name (gwl ! i) \<notin> l_Name ` set listeners"
  shows "fst (merge_listeners rng gwl listeners) ! i = gwl ! i"
  using assms build_lmap_None[of listeners "l_Name (gwl ! i)"]
  by (simp add: merge_listeners_eq nth_append scanned_def)

lemma merge_listeners_length:
  "length gwl \<le> length (fst (merge_listeners rng gwl listeners))"
  by (simp add: merge_listeners_eq)

lemma reconcileGatewayListeners_requests:
  assumes "gatewayLister_Get c (fst gwName) (snd gwName) = Inr gw"
  shows "requests (snd (reconcileGatewayListeners rng listeners ing gwName c)) =
     (if snd (merge_listeners rng (gw_Listeners gw) listeners)
      then requests c @ [UpdateGateway (gw\<lparr>gw_Listeners := fst (merge_listeners rng (gw_Listeners gw) listeners)\<rparr>)]
      else requests c)"
  using assms
  by (auto simp: reconcileGatewayListeners_def Gateways_Update_def issue_def Eventf_def Let_def
      split: prod.splits sum.splits option.splits)

text \<open>
  C1. For every call of \<open>reconcileGatewayListeners\<close> that finds the gateway, a listener
  whose name is not the name of one of the desired listeners is in the merged sequence
  at the index it had, unchanged, and the merged sequence is not shorter than the
  gateway's; the only write the call issues is the update that carries this merged
  sequence.
\<close>

theorem C1_upsert_keeps_foreign_listeners:
  assumes "gatewayLister_Get c (fst gwName) (snd gwName) = Inr gw"
    and "i < length (gw_Listeners gw)"
    and "l_Name (gw_Listeners gw ! i) \<notin> l_Name ` set listeners"
    and "merge_listeners rng (gw_Listeners gw) listeners = (ls, updated)"
  shows "length (gw_Listeners gw) \<le> length ls \<and> ls ! i = gw_Listeners gw ! i \<and>
     requests (snd (reconcileGatewayListeners rng listeners ing gwName c)) =
       (if updated then requests c @ [UpdateGateway (gw\<lparr>gw_Listeners := ls\<rparr>)] else requests c)"
  using merge_listeners_length[of "gw_Listeners gw" rng listeners]
    merge_listeners_foreign[OF assms(2,3), of rng]
    reconcileGatewayListeners_requests[OF assms(1), of rng listeners ing]
    assms(4)
  by simp

theorem C1_witness:
  "gatewayLister_Get
      (ex_cluster [ex_listener ''other'' ''x.example.com'', ex_listener ''kni-u1'' ''old.example.com''])
      ''istio-system'' ''gw''
     = Inr (ex_gateway [ex_listener ''other'' ''x.example.com'', ex_listener ''kni-u1'' ''old.example.com''])
   \<and> merge_listeners id
        [ex_listener ''other'' ''x.example.com'', ex_listener ''kni-u1'' ''old.example.com'']
        [ex_listener ''kni-u1'' ''new.example.com'']
     = ([ex_listener ''other'' ''x.example.com'', ex_listener ''kni-u1'' ''new.example.com''], True)
   \<and> requests (snd (reconcileGatewayListeners id [ex_listener ''kni-u1'' ''new.example.com'']
        (ex_ingress None) (''istio-system'', ''gw'')
        (ex_cluster [ex_listener ''other'' ''x.example.com'', ex_listener ''kni-u1'' ''old.example.com''])))
     = [UpdateGateway (ex_gateway
          [ex_listener ''other'' ''x.example.com'', ex_listener ''kni-u1'' ''new.example.com''])]"
proof -
  let ?gwl = "[ex_listener ''other'' ''x.example.com'', ex_listener ''kni-u1'' ''old.example.com'']"
  let ?new = "[ex_listener ''kni-u1'' ''new.example.com'']"
  have found: "gatewayLister_Get (ex_cluster ?gwl) (fst (''istio-system'', ''gw''))
      (snd (''istio-system'', ''gw'')) = Inr (ex_gateway ?gwl)"
    by (simp add: gatewayLister_Get_def lister_Get_def ex_cluster_def ex_gateway_def
        ex_meta_def has_key_def)
  have idx: "0 < length (gw_Listeners (ex_gateway ?gwl))"
    by (simp add: ex_gateway_def)
  have foreign: "l_Name (gw_Listeners (ex_gateway ?gwl) ! 0) \<notin> l_Name ` set ?new"
    by (simp add: ex_gateway_def ex_listener_def)
  have merged: "merge_listeners id (gw_Listeners (ex_gateway ?gwl)) ?new =
      ([ex_listener ''other'' ''x.example.com'', ex_listener ''kni-u1'' ''new.example.com''], True)"
    by (simp add: merge_listeners_def append_remaining_def scan_listeners_def scan_step_def
        build_lmap_def ex_gateway_def ex_listener_def AList.delete_eq upt_rec)
  from C1_upsert_keeps_foreign_listeners[OF found idx foreign merged, of "ex_ingress None"]
  show ?thesis
    using found merged by (simp add: ex_gateway_def ex_cluster_def)
qed

subsection \<open>A gateway without owned listeners\<close>

lemma update_fresh: "k \<notin> fst ` set al \<Longrightarrow> AList.update k v al = al @ [(k, v)]"
  by (induction al) auto

lemma build_lmap_distinct_names:
  assumes "distinct (map l_Name ls)"
  shows "build_lmap ls = map (\<lambda>l. (l_Name l, l)) ls"
proof -
  have "distinct (map fst m0 @ map l_Name ls) \<Longrightarrow>
      foldl (\<lambda>m l. AList.update (l_Name l) l m) m0 ls = m0 @ map (\<lambda>l. (l_Name l, l)) ls" for m0
  proof (induction ls arbitrary: m0)
    case Nil
    then show ?case by simp
  next
    case (Cons l ls)
    have fresh: "l_Name l \<notin> fst ` set m0" using Cons.prems by auto
    have "distinct (map fst (m0 @ [(l_Name l, l)]) @ map l_Name ls)"
      using Cons.prems by auto
    from Cons.IH[OF this] show ?case by (simp add: update_fresh[OF fresh])
  qed
  from this[of "[]"] assms show ?thesis by (simp add: build_lmap_def)
qed

lemma merge_listeners_no_owned:
  assumes "\<forall>l\<in>set gwl. l_Name l \<notin> l_Name ` set listeners"
  shows "merge_listeners rng gwl listeners =
     (gwl @ map snd (rng (build_lmap listeners)), rng (build_lmap listeners) \<noteq> [])"
proof -
  have none: "map_of (build_lmap listeners) (l_Name (gwl ! j)) = None" if "j < length gwl" for j
    using assms that by (simp add: build_lmap_None)
  have a: "map (scanned gwl (build_lmap listeners) (length gwl)) [0..<length gwl] = gwl"
    by (intro nth_equalityI) (auto simp: scanned_def none)
  have "\<forall>p\<in>set (build_lmap listeners). fst p \<notin> l_Name ` set gwl"
  proof
    fix p assume "p \<in> set (build_lmap listeners)"
    then have "fst p \<in> set (map fst (build_lmap listeners))" by simp
    then have "fst p \<in> l_Name ` set listeners" by (simp only: build_lmap_keys)
    with assms show "fst p \<notin> l_Name ` set gwl" by auto
  qed
  then have b: "filter (\<lambda>(x, _). x \<notin> l_Name ` set gwl) (build_lmap listeners) = build_lmap listeners"
    by (auto simp: filter_id_conv)
  have c: "(\<exists>j<length gwl. first_at gwl j \<and>
          (\<exists>d. map_of (build_lmap listeners) (l_Name (gwl ! j)) = Some d \<and> d \<noteq> gwl ! j)) = False"
    using none by auto
  show ?thesis unfolding merge_listeners_eq a b c by simp
qed

lemma range_order_length: "range_order_ok rng \<Longrightarrow> length (rng m) = length m"
  by (metis range_order_ok_def size_mset)

lemma appended_listeners:
  assumes "range_order_ok rng"
  shows "distinct (map l_Name (map snd (rng (build_lmap listeners)))) \<and>
     l_Name ` set (map snd (rng (build_lmap listeners))) = l_Name ` set listeners \<and>
     (\<forall>l\<in>set (map snd (rng (build_lmap listeners))).
        find (\<lambda>x. l_Name x = l_Name l) (rev listeners) = Some l)"
proof -
  let ?L = "build_lmap listeners"
  have m: "mset (rng ?L) = mset ?L"
    using assms by (simp add: range_order_ok_def)
  then have s: "set (rng ?L) = set ?L"
    by (rule mset_eq_setD)
  have entry: "l_Name l = k \<and> find (\<lambda>x. l_Name x = k) (rev listeners) = Some l"
    if "(k, l) \<in> set ?L" for k l
  proof -
    from that have "map_of ?L k = Some l"
      using build_lmap_distinct[of listeners] by simp
    then have f: "find (\<lambda>x. l_Name x = k) (rev listeners) = Some l"
      by (simp add: build_lmap_lookup)
    then have "l_Name l = k"
      by (auto simp: find_Some_iff)
    with f show ?thesis by simp
  qed
  have names: "map l_Name (map snd (rng ?L)) = map fst (rng ?L)"
    using entry s by (auto simp: comp_def)
  have "mset (map fst (rng ?L)) = mset (map fst ?L)"
    using m by simp
  then have d: "distinct (map fst (rng ?L))"
    using build_lmap_distinct[of listeners] by (metis mset_eq_imp_distinct_iff)
  have "set (map fst (rng ?L)) = set (map fst ?L)"
    using s by simp
  then have k: "l_Name ` set (map snd (rng ?L)) = l_Name ` set listeners"
    using names build_lmap_keys[of listeners] by (metis list.set_map)
  have f: "\<forall>l\<in>set (map snd (rng ?L)).
      find (\<lambda>x. l_Name x = l_Name l) (rev listeners) = Some l"
  proof
    fix l assume "l \<in> set (map snd (rng ?L))"
    with s obtain k where "(k, l) \<in> set ?L" by auto
    from entry[OF this] show "find (\<lambda>x. l_Name x = l_Name l) (rev listeners) = Some l"
      by simp
  qed
  have d': "distinct (map l_Name (map snd (rng ?L)))"
    unfolding names by (rule d)
  from d' k f show ?thesis by (intro conjI)
qed

lemma tls_listeners_collapse:
  assumes "hosts \<noteq> []"
    and "distinct (map l_Name xs)"
    and "l_Name ` set xs = l_Name ` set (map (tls_listener ing tls) hosts)"
    and "\<forall>l\<in>set xs. find (\<lambda>x. l_Name x = l_Name l) (rev (map (tls_listener ing tls) hosts)) = Some l"
  shows "xs = [tls_listener ing tls (last hosts)]"
proof -
  let ?n = "listenerPrefix @ UID (ing_meta ing)"
  have name: "l_Name (tls_listener ing tls h) = ?n" for h
    by (simp add: tls_listener_def)
  have "l_Name ` set (map (tls_listener ing tls) hosts) = {?n}"
    using assms(1) by (cases hosts) (auto simp: name)
  with assms(3) have names: "l_Name ` set xs = {?n}"
    by simp
  have "length xs = 1"
    using distinct_card[OF assms(2)] names by simp
  then obtain l where xs: "xs = [l]"
    by (cases xs) auto
  from assms(1) obtain hs h where hosts: "hosts = hs @ [h]"
    by (cases hosts rule: rev_cases) auto
  have "l_Name l = ?n" using names xs by simp
  then have "find (\<lambda>x. l_Name x = l_Name l) (rev (map (tls_listener ing tls) hosts))
      = Some (tls_listener ing tls h)"
    by (simp add: hosts name)
  with assms(4) xs have "l = tls_listener ing tls h" by simp
  with xs hosts show ?thesis by simp
qed

text \<open>
  C2, as stated, fails: \<open>reconcileTLS\<close> gives the listeners of all hosts of a TLS block
  the one name \<open>kni-<UID>\<close>, and the lookup of \<open>reconcileGatewayListeners\<close> holds one
  listener for each name. With one foreign listener and two TLS hosts the merged
  sequence has two entries, not three.
\<close>

theorem C2_counterexample:
  "fst (reconcileTLS ex_env (ex_tls [''a.example.com'', ''b.example.com''])
          (ex_ingress (Some [ex_tls [''a.example.com'', ''b.example.com'']]))
          (ex_cluster [ex_listener ''other'' ''x.example.com'']))
     = Inr (map (tls_listener (ex_ingress (Some [ex_tls [''a.example.com'', ''b.example.com'']]))
                  (ex_tls [''a.example.com'', ''b.example.com'']))
             [''a.example.com'', ''b.example.com''])
   \<and> fst (merge_listeners id [ex_listener ''other'' ''x.example.com'']
        (map (tls_listener (ex_ingress (Some [ex_tls [''a.example.com'', ''b.example.com'']]))
                (ex_tls [''a.example.com'', ''b.example.com'']))
           [''a.example.com'', ''b.example.com'']))
     = [ex_listener ''other'' ''x.example.com'',
        tls_listener (ex_ingress (Some [ex_tls [''a.example.com'', ''b.example.com'']]))
          (ex_tls [''a.example.com'', ''b.example.com'']) ''b.example.com'']
   \<and> length (fst (merge_listeners id [ex_listener ''other'' ''x.example.com'']
        (map (tls_listener (ex_ingress (Some [ex_tls [''a.example.com'', ''b.example.com'']]))
                (ex_tls [''a.example.com'', ''b.example.com'']))
           [''a.example.com'', ''b.example.com''])))
     \<noteq> length [ex_listener ''other'' ''x.example.com'']
         + length [''a.example.com'', ''b.example.com'']"
proof -
  have a: "fst (reconcileTLS ex_env (ex_tls [''a.example.com'', ''b.example.com''])
          (ex_ingress (Some [ex_tls [''a.example.com'', ''b.example.com'']]))
          (ex_cluster [ex_listener ''other'' ''x.example.com'']))
     = Inr (map (tls_listener (ex_ingress (Some [ex_tls [''a.example.com'', ''b.example.com'']]))
                  (ex_tls [''a.example.com'', ''b.example.com'']))
             [''a.example.com'', ''b.example.com''])"
    by (simp add: reconcileTLS_def desired_grant_def get_or_create_grant_def ex_defs store_defs
        NewControllerRef_def IngressVisibilityExternalIP_def Let_def)
  have b: "fst (merge_listeners id [ex_listener ''other'' ''x.example.com'']
        (map (tls_listener (ex_ingress (Some [ex_tls [''a.example.com'', ''b.example.com'']]))
                (ex_tls [''a.example.com'', ''b.example.com'']))
           [''a.example.com'', ''b.example.com'']))
     = [ex_listener ''other'' ''x.example.com'',
        tls_listener (ex_ingress (Some [ex_tls [''a.example.com'', ''b.example.com'']]))
          (ex_tls [''a.example.com'', ''b.example.com'']) ''b.example.com'']"
    by (simp add: merge_defs ex_defs tls_listener_def listenerPrefix_def)
  show ?thesis
    unfolding b using a by simp
qed

text \<open>
  C2, amended. On a gateway that is found and holds N listeners, none of which has the
  name of a desired listener, \<open>reconcileGatewayListeners\<close> with M desired listeners
  yields N + D entries, D being the number of different names among the desired
  listeners: the N listeners of the gateway first, unchanged and in their order, then
  for each desired name one entry, the last desired listener of that name. If M > 0 the
  flag \<open>updated\<close> is set and the call issues the update that carries this sequence.
  When the desired names are pairwise different, D = M and all desired listeners are
  appended. On the listeners \<open>reconcileTLS\<close> derives for M > 0 hosts, which all carry the
  name \<open>kni-<UID>\<close>, D = 1: the single entry appended is the listener of the last host.
\<close>

theorem C2_upsert_appends_new_listeners:
  assumes "range_order_ok rng"
    and "gatewayLister_Get c (fst gwName) (snd gwName) = Inr gw"
    and "\<forall>l\<in>set (gw_Listeners gw). l_Name l \<notin> l_Name ` set listeners"
    and "merge_listeners rng (gw_Listeners gw) listeners = (ls, updated)"
  shows "length ls = length (gw_Listeners gw) + card (l_Name ` set listeners) \<and>
     take (length (gw_Listeners gw)) ls = gw_Listeners gw \<and>
     distinct (map l_Name (drop (length (gw_Listeners gw)) ls)) \<and>
     l_Name ` set (drop (length (gw_Listeners gw)) ls) = l_Name ` set listeners \<and>
     (\<forall>l\<in>set (drop (length (gw_Listeners gw)) ls).
        find (\<lambda>x. l_Name x = l_Name l) (rev listeners) = Some l) \<and>
     updated = (listeners \<noteq> []) \<and>
     requests (snd (reconcileGatewayListeners rng listeners ing gwName c)) =
       (if listeners \<noteq> [] then requests c @ [UpdateGateway (gw\<lparr>gw_Listeners := ls\<rparr>)]
        else requests c) \<and>
     (distinct (map l_Name listeners) \<longrightarrow>
        length ls = length (gw_Listeners gw) + length listeners \<and>
        mset (drop (length (gw_Listeners gw)) ls) = mset listeners) \<and>
     (\<forall>owner tls hosts. listeners = map (tls_listener owner tls) hosts \<and> hosts \<noteq> [] \<longrightarrow>
        ls = gw_Listeners gw @ [tls_listener owner tls (last hosts)])"
proof -
  let ?gwl = "gw_Listeners gw"
  let ?app = "map snd (rng (build_lmap listeners))"
  from merge_listeners_no_owned[OF assms(3), of rng] assms(4)
  have ls: "ls = ?gwl @ ?app" and up: "updated = (rng (build_lmap listeners) \<noteq> [])"
    by simp_all
  have dr: "drop (length ?gwl) ls = ?app" and tk: "take (length ?gwl) ls = ?gwl"
    by (simp_all add: ls)
  note app = appended_listeners[OF assms(1), of listeners]
  have ad: "distinct (map l_Name ?app)"
    and an: "l_Name ` set ?app = l_Name ` set listeners"
    using app by blast+
  have "length ?app = length (map l_Name ?app)"
    by (simp only: length_map)
  also have "\<dots> = card (set (map l_Name ?app))"
    by (rule distinct_card[OF ad, symmetric])
  also have "\<dots> = card (l_Name ` set ?app)"
    by (simp only: set_map)
  also have "\<dots> = card (l_Name ` set listeners)"
    by (simp only: an)
  finally have len: "length ?app = card (l_Name ` set listeners)" .
  have 1: "length ls = length ?gwl + card (l_Name ` set listeners)"
    using len by (simp add: ls)
  have "(?app = []) = (listeners = [])"
  proof
    assume "?app = []"
    with an have "l_Name ` set listeners = {}" by simp
    then show "listeners = []" by simp
  next
    assume "listeners = []"
    with len show "?app = []" by simp
  qed
  then have 6: "updated = (listeners \<noteq> [])"
    by (simp add: up)
  have 7: "requests (snd (reconcileGatewayListeners rng listeners ing gwName c)) =
       (if listeners \<noteq> [] then requests c @ [UpdateGateway (gw\<lparr>gw_Listeners := ls\<rparr>)]
        else requests c)"
    using reconcileGatewayListeners_requests[OF assms(2), of rng listeners ing] assms(4) 6
    by simp
  have 8: "length ls = length ?gwl + length listeners \<and> mset (drop (length ?gwl) ls) = mset listeners"
    if d: "distinct (map l_Name listeners)"
  proof -
    have "mset ?app = mset (map snd (build_lmap listeners))"
      using assms(1) by (simp add: range_order_ok_def)
    also have "\<dots> = mset listeners"
      by (simp add: build_lmap_distinct_names[OF d] comp_def)
    finally have m: "mset ?app = mset listeners" .
    then have "length ?app = length listeners" by (metis size_mset)
    with m show ?thesis by (simp add: ls)
  qed
  have 9: "ls = ?gwl @ [tls_listener owner tls (last hosts)]"
    if "listeners = map (tls_listener owner tls) hosts \<and> hosts \<noteq> []" for owner tls hosts
  proof -
    from that have l: "listeners = map (tls_listener owner tls) hosts" and h: "hosts \<noteq> []"
      by simp_all
    from app have "?app = [tls_listener owner tls (last hosts)]"
      unfolding l by (intro tls_listeners_collapse[OF h]) simp_all
    then show ?thesis by (simp add: ls)
  qed
  from 1 tk app 6 7 8 9 show ?thesis
    unfolding dr by blast
qed

theorem C2_witness:
  "range_order_ok (id :: lmap \<Rightarrow> lmap)
   \<and> gatewayLister_Get (ex_cluster [ex_listener ''other'' ''x.example.com''])
        ''istio-system'' ''gw''
     = Inr (ex_gateway [ex_listener ''other'' ''x.example.com''])
   \<and> merge_listeners id [ex_listener ''other'' ''x.example.com'']
        (map (tls_listener (ex_ingress None) (ex_tls [''a.example.com'', ''b.example.com'']))
           [''a.example.com'', ''b.example.com''])
     = ([ex_listener ''other'' ''x.example.com'',
         tls_listener (ex_ingress None) (ex_tls [''a.example.com'', ''b.example.com''])
           ''b.example.com''], True)
   \<and> requests (snd (reconcileGatewayListeners id
        (map (tls_listener (ex_ingress None) (ex_tls [''a.example.com'', ''b.example.com'']))
           [''a.example.com'', ''b.example.com''])
        (ex_ingress None) (''istio-system'', ''gw'')
        (ex_cluster [ex_listener ''other'' ''x.example.com''])))
     = [UpdateGateway (ex_gateway
          [ex_listener ''other'' ''x.example.com'',
           tls_listener (ex_ingress None) (ex_tls [''a.example.com'', ''b.example.com''])
             ''b.example.com''])]
   \<and> distinct (map l_Name [ex_listener ''kni-u1'' ''a.example.com'',
                             ex_listener ''kni-u2'' ''b.example.com''])
   \<and> length (fst (merge_listeners id [ex_listener ''other'' ''x.example.com'']
        [ex_listener ''kni-u1'' ''a.example.com'', ex_listener ''kni-u2'' ''b.example.com'']))
     = 1 + 2"
proof -
  let ?gwl = "[ex_listener ''other'' ''x.example.com'']"
  let ?tls = "ex_tls [''a.example.com'', ''b.example.com'']"
  let ?new = "map (tls_listener (ex_ingress None) ?tls) [''a.example.com'', ''b.example.com'']"
  let ?two = "[ex_listener ''kni-u1'' ''a.example.com'', ex_listener ''kni-u2'' ''b.example.com'']"
  have ok: "range_order_ok (id :: lmap \<Rightarrow> lmap)"
    by (simp add: range_order_ok_def)
  have found: "gatewayLister_Get (ex_cluster ?gwl) (fst (''istio-system'', ''gw''))
      (snd (''istio-system'', ''gw'')) = Inr (ex_gateway ?gwl)"
    by (simp add: ex_defs store_defs)
  have none: "\<forall>l\<in>set (gw_Listeners (ex_gateway ?gwl)). l_Name l \<notin> l_Name ` set ?new"
    by (simp add: ex_defs tls_listener_def listenerPrefix_def)
  have none2: "\<forall>l\<in>set (gw_Listeners (ex_gateway ?gwl)). l_Name l \<notin> l_Name ` set ?two"
    by (simp add: ex_defs)
  have merged: "merge_listeners id (gw_Listeners (ex_gateway ?gwl)) ?new
      = (?gwl @ [tls_listener (ex_ingress None) ?tls ''b.example.com''], True)"
    by (simp add: merge_defs ex_defs tls_listener_def listenerPrefix_def)
  have dist: "distinct (map l_Name ?two)"
    by (simp add: ex_listener_def)
  have pair: "merge_listeners id (gw_Listeners (ex_gateway ?gwl)) ?two
      = (fst (merge_listeners id (gw_Listeners (ex_gateway ?gwl)) ?two),
         snd (merge_listeners id (gw_Listeners (ex_gateway ?gwl)) ?two))"
    by simp
  have gl: "gw_Listeners (ex_gateway ?gwl) = ?gwl"
    by (simp add: ex_gateway_def)
  from C2_upsert_appends_new_listeners[OF ok found none merged, of "ex_ingress None"]
  have rq: "requests (snd (reconcileGatewayListeners id ?new (ex_ingress None)
        (''istio-system'', ''gw'') (ex_cluster ?gwl)))
      = [UpdateGateway (ex_gateway (?gwl @ [tls_listener (ex_ingress None) ?tls ''b.example.com'']))]"
    by (simp add: ex_gateway_def ex_cluster_def)
  from C2_upsert_appends_new_listeners[OF ok found none2 pair, of "ex_ingress None"] dist
  have len: "length (fst (merge_listeners id (gw_Listeners (ex_gateway ?gwl)) ?two)) = 1 + 2"
    by (simp add: gl)
  show ?thesis
    using ok found merged rq dist len unfolding gl by simp
qed

subsection \<open>Replacing an owned listener\<close>

lemma first_at_unique:
  assumes "first_at gwl i" "first_at gwl j" "i < length gwl" "j < length gwl"
    and "l_Name (gwl ! i) = l_Name (gwl ! j)"
  shows "i = j"
proof (rule ccontr)
  assume "i \<noteq> j"
  then consider "i < j" | "j < i" by linarith
  then show False
  proof cases
    case 1
    then have "gwl ! i \<in> set (take j gwl)"
      using assms(4) by (auto simp: in_set_conv_nth intro!: exI[of _ i])
    then have "l_Name (gwl ! i) \<in> l_Name ` set (take j gwl)" by (rule imageI)
    then show False using assms(2) unfolding first_at_def assms(5) by simp
  next
    case 2
    then have "gwl ! j \<in> set (take i gwl)"
      using assms(3) by (auto simp: in_set_conv_nth intro!: exI[of _ j])
    then have "l_Name (gwl ! j) \<in> l_Name ` set (take i gwl)" by (rule imageI)
    then show False using assms(1) unfolding first_at_def assms(5)[symmetric] by simp
  qed
qed

lemma remaining_length:
  "length (filter (\<lambda>(x, _). x \<notin> l_Name ` set gwl) (build_lmap listeners)) =
     card (l_Name ` set listeners - l_Name ` set gwl)"
proof -
  let ?F = "filter (\<lambda>(x, _). x \<notin> l_Name ` set gwl) (build_lmap listeners)"
  have d: "distinct (map fst ?F)"
    using build_lmap_distinct[of listeners] by (simp add: distinct_map_filter)
  have "set (map fst ?F) = {x \<in> set (map fst (build_lmap listeners)). x \<notin> l_Name ` set gwl}"
    by force
  then have s: "set (map fst ?F) = l_Name ` set listeners - l_Name ` set gwl"
    unfolding build_lmap_keys by auto
  have "length ?F = length (map fst ?F)" by simp
  also have "\<dots> = card (set (map fst ?F))" using d by (simp only: distinct_card)
  finally show ?thesis using s by simp
qed

lemma merge_listeners_replace:
  assumes "range_order_ok rng"
    and "i < length gwl"
    and "first_at gwl i"
    and "map_of (build_lmap listeners) (l_Name (gwl ! i)) = Some d"
    and "gwl ! i \<noteq> d"
    and "merge_listeners rng gwl listeners = (ls, updated)"
  shows "ls ! i = d \<and> updated \<and>
     (\<forall>j<length gwl. j \<noteq> i \<and> (first_at gwl j \<longrightarrow> l_Name (gwl ! j) \<notin> l_Name ` set listeners)
          \<longrightarrow> ls ! j = gwl ! j) \<and>
     length ls = length gwl + card (l_Name ` set listeners - l_Name ` set gwl) \<and>
     (l_Name ` set listeners \<subseteq> {l_Name (gwl ! i)} \<longrightarrow> ls = gwl[i := d])"
proof -
  let ?L = "build_lmap listeners"
  let ?F = "filter (\<lambda>(x, _). x \<notin> l_Name ` set gwl) ?L"
  have ls: "ls = map (scanned gwl ?L (length gwl)) [0..<length gwl] @ map snd (rng ?F)"
    and up: "updated = ((\<exists>j<length gwl. first_at gwl j \<and>
          (\<exists>d. map_of ?L (l_Name (gwl ! j)) = Some d \<and> d \<noteq> gwl ! j)) \<or> rng ?F \<noteq> [])"
    using assms(6) by (simp_all add: merge_listeners_eq)
  have nth: "ls ! j = scanned gwl ?L (length gwl) j" if "j < length gwl" for j
    using that by (simp add: ls nth_append)
  have 1: "ls ! i = d"
    using assms(2,3,4) by (simp add: nth scanned_def)
  have 2: updated
    unfolding up using assms(2,3,4,5) by blast
  have 3: "ls ! j = gwl ! j"
    if "j < length gwl" "first_at gwl j \<longrightarrow> l_Name (gwl ! j) \<notin> l_Name ` set listeners" for j
    using that build_lmap_None[of listeners "l_Name (gwl ! j)"]
    by (auto simp: nth scanned_def)
  have 4: "length ls = length gwl + card (l_Name ` set listeners - l_Name ` set gwl)"
    using range_order_length[OF assms(1), of ?F] by (simp add: ls remaining_length)
  have 5: "ls = gwl[i := d]" if single: "l_Name ` set listeners \<subseteq> {l_Name (gwl ! i)}"
  proof -
    have "l_Name ` set listeners - l_Name ` set gwl = {}"
      using single assms(2) by auto
    with 4 have len: "length ls = length gwl" by simp
    show ?thesis
    proof (rule nth_equalityI)
      show "length ls = length (gwl[i := d])" using len by simp
    next
      fix j assume "j < length ls"
      then have j: "j < length gwl" using len by simp
      show "ls ! j = gwl[i := d] ! j"
      proof (cases "j = i")
        case True
        then show ?thesis using 1 assms(2) by simp
      next
        case False
        have "first_at gwl j \<longrightarrow> l_Name (gwl ! j) \<notin> l_Name ` set listeners"
        proof (intro impI notI)
          assume f: "first_at gwl j" and "l_Name (gwl ! j) \<in> l_Name ` set listeners"
          then have "l_Name (gwl ! i) = l_Name (gwl ! j)" using single by auto
          from first_at_unique[OF assms(3) f assms(2) j this] False show False by simp
        qed
        from 3[OF j this] False show ?thesis by simp
      qed
    qed
  qed
  from 1 2 3 4 5 show ?thesis by blast
qed

text \<open>
  C6. When \<open>reconcileGatewayListeners\<close> finds the gateway and its loop finds at index
  \<open>i\<close> an entry whose name is in the lookup (the entry is the first of its name in the
  sequence and the name is a desired one) and the entry differs from the desired value
  \<open>d\<close>, the merged sequence has \<open>d\<close> at index \<open>i\<close>, the flag \<open>updated\<close> is set and the
  call issues the update that carries the merged sequence. When all desired listeners
  carry the name of entry \<open>i\<close>, as the listeners \<open>reconcileTLS\<close> derives for an intent do,
  the merged sequence is the gateway's with exactly index \<open>i\<close> replaced: the length and
  every other entry are as they were. With more desired names, every other entry still
  keeps its index and value unless it is itself the first entry of a desired name, and
  the sequence grows by the number of desired names that did not occur in it.
\<close>

theorem C6_upsert_replaces_in_place:
  assumes "range_order_ok rng"
    and "gatewayLister_Get c (fst gwName) (snd gwName) = Inr gw"
    and "i < length (gw_Listeners gw)"
    and "first_at (gw_Listeners gw) i"
    and "map_of (build_lmap listeners) (l_Name (gw_Listeners gw ! i)) = Some d"
    and "gw_Listeners gw ! i \<noteq> d"
    and "merge_listeners rng (gw_Listeners gw) listeners = (ls, updated)"
  shows "ls ! i = d \<and> updated \<and>
     requests (snd (reconcileGatewayListeners rng listeners ing gwName c)) =
       requests c @ [UpdateGateway (gw\<lparr>gw_Listeners := ls\<rparr>)] \<and>
     (l_Name ` set listeners \<subseteq> {l_Name (gw_Listeners gw ! i)} \<longrightarrow>
        ls = (gw_Listeners gw)[i := d]) \<and>
     (\<forall>j<length (gw_Listeners gw).
        j \<noteq> i \<and> (first_at (gw_Listeners gw) j \<longrightarrow>
                    l_Name (gw_Listeners gw ! j) \<notin> l_Name ` set listeners)
          \<longrightarrow> ls ! j = gw_Listeners gw ! j) \<and>
     length ls = length (gw_Listeners gw) +
       card (l_Name ` set listeners - l_Name ` set (gw_Listeners gw))"
proof -
  note core = merge_listeners_replace[OF assms(1,3,4,5,6,7)]
  then have updated by simp
  with reconcileGatewayListeners_requests[OF assms(2), of rng listeners ing] assms(7)
  have "requests (snd (reconcileGatewayListeners rng listeners ing gwName c)) =
       requests c @ [UpdateGateway (gw\<lparr>gw_Listeners := ls\<rparr>)]"
    by simp
  with core show ?thesis by blast
qed

theorem C6_witness:
  "range_order_ok (id :: lmap \<Rightarrow> lmap)
   \<and> gatewayLister_Get
        (ex_cluster [ex_listener ''other'' ''x.example.com'',
                     tls_listener (ex_ingress None) (ex_tls [''old.example.com''])
                       ''old.example.com''])
        ''istio-system'' ''gw''
     = Inr (ex_gateway [ex_listener ''other'' ''x.example.com'',
                     tls_listener (ex_ingress None) (ex_tls [''old.example.com''])
                       ''old.example.com''])
   \<and> first_at [ex_listener ''other'' ''x.example.com'',
                tls_listener (ex_ingress None) (ex_tls [''old.example.com''])
                  ''old.example.com''] 1
   \<and> merge_listeners id
        [ex_listener ''other'' ''x.example.com'',
         tls_listener (ex_ingress None) (ex_tls [''old.example.com'']) ''old.example.com'']
        [tls_listener (ex_ingress None) (ex_tls [''a.example.com'', ''b.example.com''])
           ''a.example.com'',
         tls_listener (ex_ingress None) (ex_tls [''a.example.com'', ''b.example.com''])
           ''b.example.com'']
     = ([ex_listener ''other'' ''x.example.com'',
         tls_listener (ex_ingress None) (ex_tls [''old.example.com'']) ''old.example.com'']
          [1 := tls_listener (ex_ingress None) (ex_tls [''a.example.com'', ''b.example.com''])
                  ''b.example.com''], True)
   \<and> requests (snd (reconcileGatewayListeners id
        [tls_listener (ex_ingress None) (ex_tls [''a.example.com'', ''b.example.com''])
           ''a.example.com'',
         tls_listener (ex_ingress None) (ex_tls [''a.example.com'', ''b.example.com''])
           ''b.example.com'']
        (ex_ingress None) (''istio-system'', ''gw'')
        (ex_cluster [ex_listener ''other'' ''x.example.com'',
                     tls_listener (ex_ingress None) (ex_tls [''old.example.com''])
                       ''old.example.com''])))
     = [UpdateGateway (ex_gateway
          [ex_listener ''other'' ''x.example.com'',
           tls_listener (ex_ingress None) (ex_tls [''a.example.com'', ''b.example.com''])
             ''b.example.com''])]"
proof -
  let ?old = "tls_listener (ex_ingress None) (ex_tls [''old.example.com'']) ''old.example.com''"
  let ?gwl = "[ex_listener ''other'' ''x.example.com'', ?old]"
  let ?tls = "ex_tls [''a.example.com'', ''b.example.com'']"
  let ?new = "[tls_listener (ex_ingress None) ?tls ''a.example.com'',
      tls_listener (ex_ingress None) ?tls ''b.example.com'']"
  let ?d = "tls_listener (ex_ingress None) ?tls ''b.example.com''"
  have ok: "range_order_ok (id :: lmap \<Rightarrow> lmap)"
    by (simp add: range_order_ok_def)
  have found: "gatewayLister_Get (ex_cluster ?gwl) (fst (''istio-system'', ''gw''))
      (snd (''istio-system'', ''gw'')) = Inr (ex_gateway ?gwl)"
    by (simp add: ex_defs store_defs)
  have gl: "gw_Listeners (ex_gateway ?gwl) = ?gwl"
    by (simp add: ex_gateway_def)
  have idx: "1 < length (gw_Listeners (ex_gateway ?gwl))"
    by (simp add: ex_gateway_def)
  have first: "first_at (gw_Listeners (ex_gateway ?gwl)) 1"
    by (simp add: first_at_def ex_defs tls_listener_def listenerPrefix_def)
  have hit: "map_of (build_lmap ?new) (l_Name (gw_Listeners (ex_gateway ?gwl) ! 1)) = Some ?d"
    by (simp add: ex_gateway_def build_lmap_def tls_listener_def)
  have differs: "gw_Listeners (ex_gateway ?gwl) ! 1 \<noteq> ?d"
    by (simp add: ex_gateway_def tls_listener_def)
  have single: "l_Name ` set ?new \<subseteq> {l_Name (gw_Listeners (ex_gateway ?gwl) ! 1)}"
    by (simp add: ex_gateway_def tls_listener_def)
  have pair: "merge_listeners id (gw_Listeners (ex_gateway ?gwl)) ?new
      = (fst (merge_listeners id (gw_Listeners (ex_gateway ?gwl)) ?new),
         snd (merge_listeners id (gw_Listeners (ex_gateway ?gwl)) ?new))"
    by simp
  note inst = C6_upsert_replaces_in_place[OF ok found idx first hit differs pair,
      of "ex_ingress None"]
  from inst single have ls: "fst (merge_listeners id (gw_Listeners (ex_gateway ?gwl)) ?new)
      = (gw_Listeners (ex_gateway ?gwl))[1 := ?d]"
    by blast
  from inst have up: "snd (merge_listeners id (gw_Listeners (ex_gateway ?gwl)) ?new)"
    by blast
  from inst have rq: "requests (snd (reconcileGatewayListeners id ?new (ex_ingress None)
        (''istio-system'', ''gw'') (ex_cluster ?gwl)))
      = requests (ex_cluster ?gwl) @ [UpdateGateway ((ex_gateway ?gwl)
          \<lparr>gw_Listeners := fst (merge_listeners id (gw_Listeners (ex_gateway ?gwl)) ?new)\<rparr>)]"
    by blast
  have merged: "merge_listeners id ?gwl ?new = (?gwl[1 := ?d], True)"
    using ls up unfolding gl by (simp add: prod_eq_iff)
  have rq': "requests (snd (reconcileGatewayListeners id ?new (ex_ingress None)
        (''istio-system'', ''gw'') (ex_cluster ?gwl)))
      = [UpdateGateway (ex_gateway [ex_listener ''other'' ''x.example.com'', ?d])]"
    using rq unfolding gl by (simp add: merged ex_gateway_def ex_cluster_def)
  show ?thesis
    using ok found first[unfolded gl] merged rq' by simp
qed

subsection \<open>Clearing the listeners of an intent\<close>

lemma swap_remove_mset:
  assumes "k < length xs"
  shows "mset (take (length xs - 1) (xs[k := xs ! (length xs - 1)])) = mset xs - {#xs ! k#}"
proof (cases xs rule: rev_cases)
  case Nil
  with assms show ?thesis by simp
next
  case (snoc ys z)
  show ?thesis
  proof (cases "k = length ys")
    case True
    then show ?thesis using snoc by simp
  next
    case False
    then have k: "k < length ys" using assms snoc by simp
    then have "ys ! k \<in># mset ys" by simp
    then show ?thesis
      using snoc k by (simp add: list_update_append nth_append mset_update)
  qed
qed

lemma clear_loop_inv:
  assumes "k \<le> length upd"
    and "\<forall>j. k \<le> j \<and> j < length upd \<longrightarrow> l_Name (upd ! j) \<noteq> n"
  shows "\<exists>r. clear_loop n k upd = Some r \<and> mset r = mset (filter (\<lambda>l. l_Name l \<noteq> n) upd)"
  using assms
proof (induction k arbitrary: upd)
  case 0
  have "filter (\<lambda>l. l_Name l \<noteq> n) upd = upd"
    using "0.prems"(2) by (auto simp: filter_id_conv in_set_conv_nth)
  then show ?case by simp
next
  case (Suc k)
  from Suc.prems(1) have k: "k < length upd" by simp
  show ?case
  proof (cases "l_Name (upd ! k) = n")
    case True
    let ?upd' = "take (length upd - 1) (upd[k := upd ! (length upd - 1)])"
    have len: "k \<le> length ?upd'" using k by simp
    have rest: "\<forall>j. k \<le> j \<and> j < length ?upd' \<longrightarrow> l_Name (?upd' ! j) \<noteq> n"
    proof (intro allI impI)
      fix j assume j: "k \<le> j \<and> j < length ?upd'"
      then have jl: "j < length upd - 1" by simp
      show "l_Name (?upd' ! j) \<noteq> n"
      proof (cases "j = k")
        case True
        then have "?upd' ! j = upd ! (length upd - 1)" using jl k by simp
        moreover have "Suc k \<le> length upd - 1 \<and> length upd - 1 < length upd"
          using jl True by simp
        ultimately show ?thesis using Suc.prems(2) by simp
      next
        case False
        then have "?upd' ! j = upd ! j" using jl by simp
        moreover have "Suc k \<le> j \<and> j < length upd" using j jl False by linarith
        ultimately show ?thesis using Suc.prems(2) by simp
      qed
    qed
    from Suc.IH[OF len rest] obtain r where
      r: "clear_loop n k ?upd' = Some r" "mset r = mset (filter (\<lambda>l. l_Name l \<noteq> n) ?upd')"
      by blast
    have "mset (filter (\<lambda>l. l_Name l \<noteq> n) ?upd') = filter_mset (\<lambda>l. l_Name l \<noteq> n) (mset upd - {#upd ! k#})"
      by (simp only: mset_filter swap_remove_mset[OF k])
    also have "\<dots> = mset (filter (\<lambda>l. l_Name l \<noteq> n) upd)"
      using True by simp
    finally show ?thesis using r k True by simp
  next
    case False
    have "\<forall>j. k \<le> j \<and> j < length upd \<longrightarrow> l_Name (upd ! j) \<noteq> n"
      using Suc.prems(2) False by (metis Suc_leI le_neq_implies_less)
    from Suc.IH[OF _ this] k False show ?thesis by simp
  qed
qed

lemma clear_loop_result:
  "\<exists>r. clear_loop n (length ls) ls = Some r \<and> mset r = mset (filter (\<lambda>l. l_Name l \<noteq> n) ls)"
  by (rule clear_loop_inv) auto

lemma clear_loop_no_match:
  assumes "\<forall>j<k. l_Name (upd ! j) \<noteq> n" and "k \<le> length upd"
  shows "clear_loop n k upd = Some upd"
  using assms by (induction k) simp_all


lemma find_map_replace:
  "find P xs = Some y \<Longrightarrow> P x' \<Longrightarrow> find P (map (\<lambda>z. if P z then x' else z) xs) = Some x'"
  by (induction xs) (auto split: if_splits)

lemma lister_Get_found:
  assumes "lister_Get c meta objs ns n = Inr x"
  shows "lister_fault c = None \<and> find (\<lambda>y. has_key ns n (meta y)) objs = Some x \<and>
     Namespace (meta x) = ns \<and> Name (meta x) = n"
proof -
  from assms have f: "lister_fault c = None" "find (\<lambda>y. has_key ns n (meta y)) objs = Some x"
    by (auto simp: lister_Get_def split: option.splits)
  from f(2) have "has_key ns n (meta x)"
    by (auto simp: find_Some_iff)
  with f show ?thesis by (simp add: has_key_def)
qed

lemma Gateways_Update_requests:
  "requests (snd (Gateways_Update c g)) = requests c @ [UpdateGateway g]"
  by (auto simp: Gateways_Update_def issue_def Let_def split: option.splits sum.splits)

lemma Gateways_Update_stored:
  assumes "gatewayLister_Get c ns n = Inr gw"
    and "Gateways_Update c (gw\<lparr>gw_Listeners := ls\<rparr>) = (Inr g, c')"
  shows "\<exists>gw'. gatewayLister_Get c' ns n = Inr gw' \<and> gw_Listeners gw' = ls"
proof -
  let ?upd = "gw\<lparr>gw_Listeners := ls\<rparr>"
  let ?P = "\<lambda>y. has_key ns n (gw_meta y)"
  from lister_Get_found[OF assms(1)[unfolded gatewayLister_Get_def]]
  have nf: "lister_fault c = None" and f: "find ?P (gateways c) = Some gw"
    and key: "Namespace (gw_meta gw) = ns" "Name (gw_meta gw) = n"
    by simp_all
  let ?x = "gw_set_rv (Suc (ResourceVersion (gw_meta ?upd))) ?upd"
  have c': "c' = (issue c (UpdateGateway ?upd))\<lparr>gateways := map (\<lambda>z. if ?P z then ?x else z) (gateways c)\<rparr>"
    using assms(2) f key
    by (auto simp: Gateways_Update_def server_update_def Let_def split: option.splits sum.splits if_splits)
  have Px: "?P ?x" using key by (simp add: gw_set_rv_def has_key_def)
  have "gatewayLister_Get c' ns n = Inr ?x"
    using nf find_map_replace[OF f, of ?x] Px
    by (simp add: c' gatewayLister_Get_def lister_Get_def issue_def)
  moreover have "gw_Listeners ?x = ls" by (simp add: gw_set_rv_def)
  ultimately show ?thesis by blast
qed

text \<open>
  C8. When \<open>clearGatewayListeners\<close> finds the gateway, its loop ends without leaving the
  bounds of the sequence, no listener named \<open>kni-<UID>\<close> is left in the resulting
  sequence, and the sequence holds exactly the listeners with another name (as a multiset;
  the swaps may reorder them). If the length changed, the one write of the call carries
  this sequence; when the call returns without error, the gateway read back from the
  store has it.
\<close>

theorem C8_clear_removes_owned_listeners:
  assumes found: "gatewayLister_Get c (fst gwName) (snd gwName) = Inr gw"
  shows "\<exists>ls. clear_loop (listenerPrefix @ UID (ing_meta ing)) (length (gw_Listeners gw))
            (gw_Listeners gw) = Some ls \<and>
     (\<forall>l\<in>set ls. l_Name l \<noteq> listenerPrefix @ UID (ing_meta ing)) \<and>
     mset ls = mset (filter (\<lambda>l. l_Name l \<noteq> listenerPrefix @ UID (ing_meta ing)) (gw_Listeners gw)) \<and>
     requests (snd (clearGatewayListeners ing gwName c)) =
       (if length ls \<noteq> length (gw_Listeners gw)
        then requests c @ [UpdateGateway (gw\<lparr>gw_Listeners := ls\<rparr>)] else requests c) \<and>
     (fst (clearGatewayListeners ing gwName c) = Inr () \<longrightarrow>
        (\<exists>gw'. gatewayLister_Get (snd (clearGatewayListeners ing gwName c)) (fst gwName) (snd gwName)
                 = Inr gw' \<and> gw_Listeners gw' = ls))"
proof -
  let ?n = "listenerPrefix @ UID (ing_meta ing)"
  let ?gwl = "gw_Listeners gw"
  from clear_loop_result[of ?n ?gwl] obtain ls where
    ls: "clear_loop ?n (length ?gwl) ?gwl = Some ls"
    and m: "mset ls = mset (filter (\<lambda>l. l_Name l \<noteq> ?n) ?gwl)"
    by blast
  from m have "set ls = set (filter (\<lambda>l. l_Name l \<noteq> ?n) ?gwl)"
    by (rule mset_eq_setD)
  then have none: "\<forall>l\<in>set ls. l_Name l \<noteq> ?n" by simp
  have rq: "requests (snd (clearGatewayListeners ing gwName c)) =
       (if length ls \<noteq> length ?gwl
        then requests c @ [UpdateGateway (gw\<lparr>gw_Listeners := ls\<rparr>)] else requests c)"
  proof (cases "length ls \<noteq> length ?gwl")
    case True
    have "snd (clearGatewayListeners ing gwName c) =
        (case Gateways_Update c (gw\<lparr>gw_Listeners := ls\<rparr>) of
           (Inl err, c') \<Rightarrow> Eventf c' ''Warning'' ''GatewayUpdateFailed''
         | (Inr g, c') \<Rightarrow> c')"
      using found ls True by (simp add: clearGatewayListeners_def split: prod.splits sum.splits)
    then show ?thesis
      using True Gateways_Update_requests[of c "gw\<lparr>gw_Listeners := ls\<rparr>"]
      by (auto simp: Eventf_def split: prod.splits sum.splits)
  next
    case False
    then show ?thesis using found ls by (simp add: clearGatewayListeners_def)
  qed
  have st: "\<exists>gw'. gatewayLister_Get (snd (clearGatewayListeners ing gwName c)) (fst gwName) (snd gwName)
                 = Inr gw' \<and> gw_Listeners gw' = ls"
    if ok: "fst (clearGatewayListeners ing gwName c) = Inr ()"
  proof (cases "length ls \<noteq> length ?gwl")
    case True
    obtain res c' where u: "Gateways_Update c (gw\<lparr>gw_Listeners := ls\<rparr>) = (res, c')"
      by (cases "Gateways_Update c (gw\<lparr>gw_Listeners := ls\<rparr>)")
    from ok found ls True u obtain g where g: "res = Inr g"
      by (cases res) (auto simp: clearGatewayListeners_def)
    have "snd (clearGatewayListeners ing gwName c) = c'"
      using found ls True u g by (simp add: clearGatewayListeners_def)
    with Gateways_Update_stored[OF found u[unfolded g]] show ?thesis by simp
  next
    case False
    then have "length (filter (\<lambda>l. l_Name l \<noteq> ?n) ?gwl) = length ?gwl"
      using m by (metis size_mset)
    then have "length (filter (\<lambda>l. \<not> l_Name l \<noteq> ?n) ?gwl) = 0"
      using sum_length_filter_compl[of "\<lambda>l. l_Name l \<noteq> ?n" ?gwl] by simp
    then have all: "\<forall>l\<in>set ?gwl. l_Name l \<noteq> ?n"
      by (simp add: filter_empty_conv)
    then have "clear_loop ?n (length ?gwl) ?gwl = Some ?gwl"
      by (intro clear_loop_no_match) auto
    with ls have "ls = ?gwl" by simp
    moreover have "snd (clearGatewayListeners ing gwName c) = c"
      using found ls False by (simp add: clearGatewayListeners_def)
    ultimately show ?thesis using found by simp
  qed
  from ls none m rq st show ?thesis by blast
qed


theorem C8_witness:
  "gatewayLister_Get
      (ex_cluster [ex_listener ''kni-u1'' ''a.example.com'', ex_listener ''other'' ''x.example.com'',
                   ex_listener ''kni-u1'' ''b.example.com'', ex_listener ''third'' ''y.example.com''])
      ''istio-system'' ''gw''
     = Inr (ex_gateway [ex_listener ''kni-u1'' ''a.example.com'', ex_listener ''other'' ''x.example.com'',
                   ex_listener ''kni-u1'' ''b.example.com'', ex_listener ''third'' ''y.example.com''])
   \<and> clear_loop ''kni-u1'' 4
        [ex_listener ''kni-u1'' ''a.example.com'', ex_listener ''other'' ''x.example.com'',
         ex_listener ''kni-u1'' ''b.example.com'', ex_listener ''third'' ''y.example.com'']
     = Some [ex_listener ''third'' ''y.example.com'', ex_listener ''other'' ''x.example.com'']
   \<and> requests (snd (clearGatewayListeners (ex_ingress None) (''istio-system'', ''gw'')
        (ex_cluster [ex_listener ''kni-u1'' ''a.example.com'', ex_listener ''other'' ''x.example.com'',
                   ex_listener ''kni-u1'' ''b.example.com'', ex_listener ''third'' ''y.example.com''])))
     = [UpdateGateway (ex_gateway
          [ex_listener ''third'' ''y.example.com'', ex_listener ''other'' ''x.example.com''])]"
proof -
  let ?gwl = "[ex_listener ''kni-u1'' ''a.example.com'', ex_listener ''other'' ''x.example.com'',
               ex_listener ''kni-u1'' ''b.example.com'', ex_listener ''third'' ''y.example.com'']"
  have found: "gatewayLister_Get (ex_cluster ?gwl) (fst (''istio-system'', ''gw''))
      (snd (''istio-system'', ''gw'')) = Inr (ex_gateway ?gwl)"
    by (simp add: ex_defs store_defs)
  have loop: "clear_loop ''kni-u1'' 4 ?gwl
      = Some [ex_listener ''third'' ''y.example.com'', ex_listener ''other'' ''x.example.com'']"
    by (simp add: ex_listener_def eval_nat_numeral)
  have run: "clear_loop (listenerPrefix @ UID (ing_meta (ex_ingress None)))
      (length (gw_Listeners (ex_gateway ?gwl))) (gw_Listeners (ex_gateway ?gwl))
      = Some [ex_listener ''third'' ''y.example.com'', ex_listener ''other'' ''x.example.com'']"
    by (simp add: ex_defs listenerPrefix_def)
  from C8_clear_removes_owned_listeners[OF found, of "ex_ingress None"]
  have "requests (snd (clearGatewayListeners (ex_ingress None) (''istio-system'', ''gw'')
        (ex_cluster ?gwl)))
     = [UpdateGateway (ex_gateway
          [ex_listener ''third'' ''y.example.com'', ex_listener ''other'' ''x.example.com''])]"
    unfolding run by (simp add: ex_gateway_def ex_cluster_def)
  then show ?thesis
    using found loop by simp
qed

text \<open>
  C9. When the gateway is found and none of its listeners is named \<open>kni-<UID>\<close>, the loop
  of \<open>clearGatewayListeners\<close> returns the sequence as it was, and the call returns
  without error and leaves the store, the log of write calls and the events as they
  were: no update is issued.
\<close>

theorem C9_clear_without_match_is_noop:
  assumes found: "gatewayLister_Get c (fst gwName) (snd gwName) = Inr gw"
    and "\<forall>l\<in>set (gw_Listeners gw). l_Name l \<noteq> listenerPrefix @ UID (ing_meta ing)"
  shows "clear_loop (listenerPrefix @ UID (ing_meta ing)) (length (gw_Listeners gw))
            (gw_Listeners gw) = Some (gw_Listeners gw) \<and>
     clearGatewayListeners ing gwName c = (Inr (), c)"
proof -
  have "clear_loop (listenerPrefix @ UID (ing_meta ing)) (length (gw_Listeners gw))
            (gw_Listeners gw) = Some (gw_Listeners gw)"
    using assms(2) by (intro clear_loop_no_match) auto
  then show ?thesis using found by (simp add: clearGatewayListeners_def)
qed


theorem C9_witness:
  "gatewayLister_Get
      (ex_cluster [ex_listener ''other'' ''x.example.com'', ex_listener ''third'' ''y.example.com''])
      ''istio-system'' ''gw''
     = Inr (ex_gateway [ex_listener ''other'' ''x.example.com'', ex_listener ''third'' ''y.example.com''])
   \<and> clearGatewayListeners (ex_ingress None) (''istio-system'', ''gw'')
        (ex_cluster [ex_listener ''other'' ''x.example.com'', ex_listener ''third'' ''y.example.com''])
     = (Inr (),
        ex_cluster [ex_listener ''other'' ''x.example.com'', ex_listener ''third'' ''y.example.com''])
   \<and> requests (ex_cluster [ex_listener ''other'' ''x.example.com'',
                             ex_listener ''third'' ''y.example.com'']) = []"
proof -
  let ?gwl = "[ex_listener ''other'' ''x.example.com'', ex_listener ''third'' ''y.example.com'']"
  have found: "gatewayLister_Get (ex_cluster ?gwl) (fst (''istio-system'', ''gw''))
      (snd (''istio-system'', ''gw'')) = Inr (ex_gateway ?gwl)"
    by (simp add: ex_defs store_defs)
  have none: "\<forall>l\<in>set (gw_Listeners (ex_gateway ?gwl)).
      l_Name l \<noteq> listenerPrefix @ UID (ing_meta (ex_ingress None))"
    by (simp add: ex_defs listenerPrefix_def)
  from C9_clear_without_match_is_noop[OF found none]
  show ?thesis
    using found by (simp add: ex_cluster_def)
qed

section \<open>Properties of the convergence engine\<close>

lemma find_append_new:
  "find P xs = None \<Longrightarrow> P x \<Longrightarrow> find P (xs @ [x]) = Some x"
  by (induction xs) (auto split: if_splits)

lemma HTTPRoutes_Create_stored:
  assumes "lister_fault c = None" and "HTTPRoutes_Create c r = (Inr r', c')"
  shows "httprouteLister_Get c' (Namespace (hr_meta r)) (Name (hr_meta r)) = Inr r' \<and>
     hr_Spec r' = hr_Spec r \<and> Labels (hr_meta r') = Labels (hr_meta r) \<and>
     Annotations (hr_meta r') = Annotations (hr_meta r) \<and> lister_fault c' = None"
proof -
  let ?P = "\<lambda>y. has_key (Namespace (hr_meta r)) (Name (hr_meta r)) (hr_meta y)"
  from assms(2) have nf: "find ?P (httproutes c) = None"
    and r': "r' = hr_set_rv 1 r"
    and c': "c' = (issue c (CreateHTTPRoute r))\<lparr>httproutes := httproutes c @ [hr_set_rv 1 r]\<rparr>"
    by (auto simp: HTTPRoutes_Create_def server_create_def Let_def
        split: option.splits sum.splits)
  have "?P (hr_set_rv 1 r)" by (simp add: hr_set_rv_def has_key_def)
  from find_append_new[OF nf this] show ?thesis
    using assms(1) by (simp add: c' r' httprouteLister_Get_def lister_Get_def issue_def hr_set_rv_def)
qed

lemma HTTPRoutes_Update_stored:
  assumes "httprouteLister_Get c ns n = Inr old"
    and "hr_meta r = (hr_meta old)\<lparr>Annotations := a, Labels := l\<rparr>"
    and "HTTPRoutes_Update c r = (Inr r', c')"
  shows "httprouteLister_Get c' ns n = Inr r' \<and>
     hr_Spec r' = hr_Spec r \<and> Labels (hr_meta r') = l \<and>
     Annotations (hr_meta r') = a \<and> lister_fault c' = None"
proof -
  let ?P = "\<lambda>y. has_key ns n (hr_meta y)"
  from lister_Get_found[OF assms(1)[unfolded httprouteLister_Get_def]]
  have nf: "lister_fault c = None" and f: "find ?P (httproutes c) = Some old"
    and key: "Namespace (hr_meta old) = ns" "Name (hr_meta old) = n"
    by simp_all
  have key': "Namespace (hr_meta r) = ns" "Name (hr_meta r) = n"
    using key assms(2) by simp_all
  let ?x = "hr_set_rv (Suc (ResourceVersion (hr_meta r))) r"
  have r': "r' = ?x"
    and c': "c' = (issue c (UpdateHTTPRoute r))\<lparr>httproutes := map (\<lambda>z. if ?P z then ?x else z) (httproutes c)\<rparr>"
    using assms(3) f key'
    by (auto simp: HTTPRoutes_Update_def server_update_def Let_def
        split: option.splits sum.splits if_splits)
  have Px: "?P ?x" using key' by (simp add: hr_set_rv_def has_key_def)
  have "httprouteLister_Get c' ns n = Inr ?x"
    using nf find_map_replace[OF f, of ?x] Px
    by (simp add: c' httprouteLister_Get_def lister_Get_def issue_def)
  then show ?thesis
    using nf assms(2) by (simp add: r' c' hr_set_rv_def issue_def)
qed

lemma httprouteLister_Get_Eventf [simp]:
  "httprouteLister_Get (Eventf c t r) ns n = httprouteLister_Get c ns n"
  by (simp add: httprouteLister_Get_def lister_Get_def Eventf_def)

lemma reconcileHTTPRoute_noop:
  assumes "httprouteLister_Get c (Namespace (ing_meta ing)) (Name (hr_meta desired)) = Inr observed"
    and "hr_Spec observed = hr_Spec desired"
    and "Labels (hr_meta observed) = Labels (hr_meta desired)"
    and "Annotations (hr_meta observed) = Annotations (hr_meta desired)"
  shows "reconcileHTTPRoute ing desired c = (Inr observed, c)"
  using assms by (simp add: reconcileHTTPRoute_def)

lemma reconcileHTTPRoute_converged:
  assumes "lister_fault c = None"
    and "Namespace (hr_meta desired) = Namespace (ing_meta ing)"
    and "reconcileHTTPRoute ing desired c = (Inr r1, c1)"
  shows "httprouteLister_Get c1 (Namespace (ing_meta ing)) (Name (hr_meta desired)) = Inr r1 \<and>
     hr_Spec r1 = hr_Spec desired \<and> Labels (hr_meta r1) = Labels (hr_meta desired) \<and>
     Annotations (hr_meta r1) = Annotations (hr_meta desired)"
proof (cases "httprouteLister_Get c (Namespace (ing_meta ing)) (Name (hr_meta desired))")
  case (Inl err)
  with assms(3) obtain c' where cr: "HTTPRoutes_Create c desired = (Inr r1, c')"
    and c1: "c1 = Eventf c' ''Normal'' ''Created''"
    by (auto simp: reconcileHTTPRoute_def split: if_splits prod.splits sum.splits)
  from HTTPRoutes_Create_stored[OF assms(1) cr] show ?thesis
    using assms(2) by (simp add: c1)
next
  case (Inr observed)
  show ?thesis
  proof (cases "hr_Spec observed \<noteq> hr_Spec desired \<or>
             Annotations (hr_meta observed) \<noteq> Annotations (hr_meta desired) \<or>
             Labels (hr_meta observed) \<noteq> Labels (hr_meta desired)")
    case True
    let ?origin = "observed\<lparr>hr_Spec := hr_Spec desired,
        hr_meta := (hr_meta observed)\<lparr>Annotations := Annotations (hr_meta desired),
          Labels := Labels (hr_meta desired)\<rparr>\<rparr>"
    from assms(3) Inr True have up: "HTTPRoutes_Update c ?origin = (Inr r1, c1)"
      by (auto simp: reconcileHTTPRoute_def Let_def split: prod.splits sum.splits)
    have m: "hr_meta ?origin = (hr_meta observed)\<lparr>Annotations := Annotations (hr_meta desired),
          Labels := Labels (hr_meta desired)\<rparr>" by simp
    from HTTPRoutes_Update_stored[OF Inr m up] show ?thesis by simp
  next
    case False
    with assms(3) Inr have "r1 = observed" "c1 = c"
      by (auto simp: reconcileHTTPRoute_def)
    with Inr False show ?thesis by simp
  qed
qed



text \<open>
  C3. If the lister finds the route and its spec, labels and annotations equal the
  desired ones, \<open>reconcileHTTPRoute\<close> returns the observed route and leaves the cluster
  state as it was: no create, no update, not even an event. Hence, after a call that
  returned a route (created, updated or found equal), for a desired route in the
  intent's namespace and listers that read the store, a second call with the same
  desired route returns the same route and changes nothing: no further write.
\<close>

theorem C3_converge_is_idempotent:
  "(httprouteLister_Get c (Namespace (ing_meta ing)) (Name (hr_meta desired)) = Inr observed \<and>
    hr_Spec observed = hr_Spec desired \<and>
    Labels (hr_meta observed) = Labels (hr_meta desired) \<and>
    Annotations (hr_meta observed) = Annotations (hr_meta desired)
      \<longrightarrow> reconcileHTTPRoute ing desired c = (Inr observed, c)) \<and>
   (lister_fault c = None \<and> Namespace (hr_meta desired) = Namespace (ing_meta ing) \<and>
    reconcileHTTPRoute ing desired c = (Inr r1, c1)
      \<longrightarrow> reconcileHTTPRoute ing desired c1 = (Inr r1, c1))"
proof (intro conjI impI)
  assume "httprouteLister_Get c (Namespace (ing_meta ing)) (Name (hr_meta desired)) = Inr observed \<and>
    hr_Spec observed = hr_Spec desired \<and>
    Labels (hr_meta observed) = Labels (hr_meta desired) \<and>
    Annotations (hr_meta observed) = Annotations (hr_meta desired)"
  then show "reconcileHTTPRoute ing desired c = (Inr observed, c)"
    by (intro reconcileHTTPRoute_noop) simp_all
next
  assume a: "lister_fault c = None \<and> Namespace (hr_meta desired) = Namespace (ing_meta ing) \<and>
    reconcileHTTPRoute ing desired c = (Inr r1, c1)"
  then have "httprouteLister_Get c1 (Namespace (ing_meta ing)) (Name (hr_meta desired)) = Inr r1 \<and>
     hr_Spec r1 = hr_Spec desired \<and> Labels (hr_meta r1) = Labels (hr_meta desired) \<and>
     Annotations (hr_meta r1) = Annotations (hr_meta desired)"
    using reconcileHTTPRoute_converged[of c desired ing r1 c1] by blast
  then show "reconcileHTTPRoute ing desired c1 = (Inr r1, c1)"
    by (intro reconcileHTTPRoute_noop) simp_all
qed

theorem C3_witness:
  "fst (reconcileHTTPRoute (ex_ingress None) ex_route (ex_cluster [])) = Inr ex_route
   \<and> requests (snd (reconcileHTTPRoute (ex_ingress None) ex_route (ex_cluster [])))
       = [CreateHTTPRoute ex_route]
   \<and> httprouteLister_Get (snd (reconcileHTTPRoute (ex_ingress None) ex_route (ex_cluster [])))
       ''ns1'' ''a.example.com'' = Inr ex_route
   \<and> reconcileHTTPRoute (ex_ingress None) ex_route
        (snd (reconcileHTTPRoute (ex_ingress None) ex_route (ex_cluster [])))
       = (Inr ex_route, snd (reconcileHTTPRoute (ex_ingress None) ex_route (ex_cluster [])))"
proof -
  let ?c1 = "snd (reconcileHTTPRoute (ex_ingress None) ex_route (ex_cluster []))"
  have r1: "fst (reconcileHTTPRoute (ex_ingress None) ex_route (ex_cluster [])) = Inr ex_route"
    by (simp add: reconcileHTTPRoute_def ex_defs store_defs)
  have rq: "requests ?c1 = [CreateHTTPRoute ex_route]"
    by (simp add: reconcileHTTPRoute_def ex_defs store_defs)
  have first: "reconcileHTTPRoute (ex_ingress None) ex_route (ex_cluster []) = (Inr ex_route, ?c1)"
    using r1 by (simp add: prod_eq_iff)
  have nofault: "lister_fault (ex_cluster []) = None"
    by (simp add: ex_cluster_def)
  have ns: "Namespace (hr_meta ex_route) = Namespace (ing_meta (ex_ingress None))"
    by (simp add: ex_defs)
  have got: "httprouteLister_Get ?c1 (Namespace (ing_meta (ex_ingress None)))
      (Name (hr_meta ex_route)) = Inr ex_route"
    by (simp add: reconcileHTTPRoute_def ex_defs store_defs)
  have second: "reconcileHTTPRoute (ex_ingress None) ex_route ?c1 = (Inr ex_route, ?c1)"
    by (rule C3_converge_is_idempotent[where c = ?c1 and ing = "ex_ingress None"
          and desired = ex_route and observed = ex_route, THEN conjunct1, THEN mp])
      (intro conjI got refl)
  have again: "reconcileHTTPRoute (ex_ingress None) ex_route ?c1 = (Inr ex_route, ?c1)"
    by (rule C3_converge_is_idempotent[where c = "ex_cluster []" and ing = "ex_ingress None"
          and desired = ex_route and ?r1.0 = ex_route and ?c1.0 = ?c1, THEN conjunct2, THEN mp])
      (intro conjI nofault ns first)
  have key: "Namespace (ing_meta (ex_ingress None)) = ''ns1''"
    "Name (hr_meta ex_route) = ''a.example.com''"
    by (simp_all add: ex_defs)
  show ?thesis
    using r1 rq got again second unfolding key by simp
qed

text \<open>
  C4. In \<open>reconcileTLS\<close>, when the lister finds the ReferenceGrant of the derived name and
  \<open>IsControlledBy\<close> is false for the intent, the call returns the error "not owned",
  records an event and issues no write; the store is as it was. Nothing is assumed on
  the found grant's spec: the ownership test is decided before the specs are compared.
\<close>

theorem C4_grant_not_owned:
  assumes "referenceGrantLister_Get c (Namespace (rg_meta (desired_grant env tls ing)))
             (Name (rg_meta (desired_grant env tls ing))) = Inr rp"
    and "\<not> IsControlledBy (rg_meta rp) (ing_meta ing)"
  shows "reconcileTLS env tls ing c =
       (Inl (ReferenceGrantNotOwned (Name (rg_meta rp)) (Name (ing_meta ing))),
        Eventf c ''Warning'' ''NotOwned'') \<and>
     requests (snd (reconcileTLS env tls ing c)) = requests c \<and>
     referencegrants (snd (reconcileTLS env tls ing c)) = referencegrants c"
  using assms by (simp add: reconcileTLS_def get_or_create_grant_def Eventf_def)

theorem C4_witness:
  "referenceGrantLister_Get ex_cluster_with_grant ''ns1'' ''tls-secret-istio-system''
     = Inr ex_foreign_grant
   \<and> \<not> IsControlledBy (rg_meta ex_foreign_grant) (ing_meta (ex_ingress None))
   \<and> rg_Spec ex_foreign_grant \<noteq> rg_Spec (desired_grant ex_env (ex_tls [''a.example.com'']) (ex_ingress None))
   \<and> fst (reconcileTLS ex_env (ex_tls [''a.example.com'']) (ex_ingress None) ex_cluster_with_grant)
     = Inl (ReferenceGrantNotOwned ''tls-secret-istio-system'' ''ing'')
   \<and> requests (snd (reconcileTLS ex_env (ex_tls [''a.example.com'']) (ex_ingress None)
        ex_cluster_with_grant)) = []"
proof -
  have found: "referenceGrantLister_Get ex_cluster_with_grant
      (Namespace (rg_meta (desired_grant ex_env (ex_tls [''a.example.com'']) (ex_ingress None))))
      (Name (rg_meta (desired_grant ex_env (ex_tls [''a.example.com'']) (ex_ingress None))))
     = Inr ex_foreign_grant"
    by (simp add: desired_grant_def ex_cluster_with_grant_def ex_foreign_grant_def ex_defs
        store_defs IngressVisibilityExternalIP_def)
  have key: "Namespace (rg_meta (desired_grant ex_env (ex_tls [''a.example.com'']) (ex_ingress None)))
      = ''ns1''"
    "Name (rg_meta (desired_grant ex_env (ex_tls [''a.example.com'']) (ex_ingress None)))
      = ''tls-secret-istio-system''"
    by (simp_all add: desired_grant_def ex_defs IngressVisibilityExternalIP_def)
  have foreign: "\<not> IsControlledBy (rg_meta ex_foreign_grant) (ing_meta (ex_ingress None))"
    by (simp add: IsControlledBy_def ex_foreign_grant_def ex_defs)
  have differs: "rg_Spec ex_foreign_grant
      \<noteq> rg_Spec (desired_grant ex_env (ex_tls [''a.example.com'']) (ex_ingress None))"
    by (simp add: desired_grant_def ex_foreign_grant_def ex_defs IngressVisibilityExternalIP_def)
  have names: "Name (rg_meta ex_foreign_grant) = ''tls-secret-istio-system''"
    "Name (ing_meta (ex_ingress None)) = ''ing''"
    "requests ex_cluster_with_grant = []"
    by (simp_all add: ex_foreign_grant_def ex_cluster_with_grant_def ex_defs)
  from C4_grant_not_owned[OF found foreign]
  have "fst (reconcileTLS ex_env (ex_tls [''a.example.com'']) (ex_ingress None)
        ex_cluster_with_grant)
      = Inl (ReferenceGrantNotOwned ''tls-secret-istio-system'' ''ing'')"
    and "requests (snd (reconcileTLS ex_env (ex_tls [''a.example.com'']) (ex_ingress None)
        ex_cluster_with_grant)) = []"
    by (simp_all add: names Eventf_def)
  then show ?thesis
    using found foreign differs unfolding key by simp
qed



section \<open>Properties of the resource builder\<close>

text \<open>
  C10, as stated, fails: the builders do not return for every input. For a rule whose
  \<open>HTTP\<close> is \<open>nil\<close> both panic, at line 89 and at line 208, when they range over
  \<open>rule.HTTP.Paths\<close>.
\<close>

theorem C10_counterexample:
  "MakeHTTPRoute ex_env (ex_ingress None) (ex_rule\<lparr>ru_HTTP := None\<rparr>)
      (gateway_parent (gatewayConfig ex_env ''ExternalIP'') None)
     = Panics NilPointerDereference
   \<and> MakeRedirectHTTPRoute ex_env (ex_ingress None) (ex_rule\<lparr>ru_HTTP := None\<rparr>)
      (gateway_parent (gatewayConfig ex_env ''ExternalIP'') None)
     = Panics NilPointerDereference"
  by (simp add: MakeHTTPRoute_def MakeRedirectHTTPRoute_def makeHTTPRouteSpec_def
      makeRedirectHTTPRouteSpec_def makeHTTPRouteRule_def makeRedirectHTTPRouteRule_def
      ex_rule_def ex_env_def ex_LongestHost_def sort_Sort_def)

text \<open>
  C10, amended. \<open>MakeHTTPRoute\<close> and \<open>MakeRedirectHTTPRoute\<close> never return an error:
  whenever they return, they return a route and a \<open>nil\<close> error. They return exactly when
  \<open>rule.HTTP\<close> is set and \<open>LongestHost\<close> returns; when \<open>LongestHost\<close> returns and
  \<open>rule.HTTP\<close> is \<open>nil\<close> they panic on the nil pointer. The route
  \<open>MakeRedirectHTTPRoute\<close> builds does not depend on the TLS block of the intent: the
  builder does not test it (the test is in \<open>reconcileRedirectHTTPRoute\<close>).
\<close>

theorem C10_builders_return_no_error:
  "(\<forall>e. MakeHTTPRoute env ing rule gatewayRef \<noteq> Returns (Inl e)) \<and>
   (\<forall>e. MakeRedirectHTTPRoute env ing rule gatewayRef \<noteq> Returns (Inl e)) \<and>
   ((\<exists>r. MakeHTTPRoute env ing rule gatewayRef = Returns (Inr r)) \<longleftrightarrow>
      (ru_HTTP rule \<noteq> None \<and> LongestHost env (ru_Hosts rule) \<noteq> None)) \<and>
   ((\<exists>r. MakeRedirectHTTPRoute env ing rule gatewayRef = Returns (Inr r)) \<longleftrightarrow>
      (ru_HTTP rule \<noteq> None \<and> LongestHost env (ru_Hosts rule) \<noteq> None)) \<and>
   (ru_HTTP rule = None \<and> LongestHost env (ru_Hosts rule) \<noteq> None \<longrightarrow>
      MakeHTTPRoute env ing rule gatewayRef = Panics NilPointerDereference \<and>
      MakeRedirectHTTPRoute env ing rule gatewayRef = Panics NilPointerDereference) \<and>
   (\<forall>tls. MakeRedirectHTTPRoute env (ing\<lparr>ing_TLS := tls\<rparr>) rule gatewayRef =
      MakeRedirectHTTPRoute env ing rule gatewayRef)"
proof -
  have spec: "makeHTTPRouteSpec env r gatewayRef =
      (case ru_HTTP r of None \<Rightarrow> Panics NilPointerDereference
       | Some http \<Rightarrow> Returns \<lparr>ParentRefs = [gatewayRef], Hostnames = ru_Hosts r,
           Rules = (case makeHTTPRouteRule env r of Returns rs \<Rightarrow> rs | Panics p \<Rightarrow> [])\<rparr>)" for r
    by (simp add: makeHTTPRouteSpec_def makeHTTPRouteRule_def split: option.splits)
  have rspec: "makeRedirectHTTPRouteSpec env r gatewayRef =
      (case ru_HTTP r of None \<Rightarrow> Panics NilPointerDereference
       | Some http \<Rightarrow> Returns \<lparr>ParentRefs = [gatewayRef], Hostnames = ru_Hosts r,
           Rules = (case makeRedirectHTTPRouteRule env r of Returns rs \<Rightarrow> rs | Panics p \<Rightarrow> [])\<rparr>)"
    for r
    by (simp add: makeRedirectHTTPRouteSpec_def makeRedirectHTTPRouteRule_def split: option.splits)
  show ?thesis
  proof (cases "LongestHost env (ru_Hosts rule)")
    case None
    then show ?thesis
      by (simp add: MakeHTTPRoute_def MakeRedirectHTTPRoute_def route_meta_def)
  next
    case (Some nh)
    obtain n hosts where nh: "nh = (n, hosts)" by (cases nh)
    show ?thesis
    proof (cases "ru_HTTP rule")
      case None
      with Some nh show ?thesis
        by (simp add: MakeHTTPRoute_def MakeRedirectHTTPRoute_def spec rspec route_meta_def
            NewControllerRef_def)
    next
      case (Some http)
      with \<open>LongestHost env (ru_Hosts rule) = Some nh\<close> nh show ?thesis
        by (simp add: MakeHTTPRoute_def MakeRedirectHTTPRoute_def spec rspec route_meta_def
            NewControllerRef_def)
    qed
  qed
qed

theorem C10_witness:
  "(\<exists>r. MakeHTTPRoute ex_env (ex_ingress None) ex_rule
           (gateway_parent (gatewayConfig ex_env ''ExternalIP'') None) = Returns (Inr r))
   \<and> (\<exists>r. MakeRedirectHTTPRoute ex_env (ex_ingress None) ex_rule
           (gateway_parent (gatewayConfig ex_env ''ExternalIP'') None) = Returns (Inr r))
   \<and> LongestHost ex_env (ru_Hosts (ex_rule\<lparr>ru_HTTP := None\<rparr>))
       = Some (''a.example.com'', [''a.example.com''])
   \<and> MakeRedirectHTTPRoute ex_env (ex_ingress None) (ex_rule\<lparr>ru_HTTP := None\<rparr>)
        (gateway_parent (gatewayConfig ex_env ''ExternalIP'') None) = Panics NilPointerDereference"
proof -
  have set: "ru_HTTP ex_rule \<noteq> None \<and> LongestHost ex_env (ru_Hosts ex_rule) \<noteq> None"
    by (simp add: ex_rule_def ex_env_def ex_LongestHost_def sort_Sort_def)
  have unset: "ru_HTTP (ex_rule\<lparr>ru_HTTP := None\<rparr>) = None"
    by simp
  have host: "LongestHost ex_env (ru_Hosts (ex_rule\<lparr>ru_HTTP := None\<rparr>))
       = Some (''a.example.com'', [''a.example.com''])"
    by (simp add: ex_rule_def ex_env_def ex_LongestHost_def sort_Sort_def)
  show ?thesis
    using C10_builders_return_no_error[of ex_env "ex_ingress None" ex_rule
        "gateway_parent (gatewayConfig ex_env ''ExternalIP'') None"]
      C10_builders_return_no_error[of ex_env "ex_ingress None" "ex_rule\<lparr>ru_HTTP := None\<rparr>"
        "gateway_parent (gatewayConfig ex_env ''ExternalIP'') None"]
      set unset host
    by simp
qed

subsection \<open>Sorting by header name\<close>

lemma mset_insert_by: "mset (insert_by lt x ys) = add_mset x (mset ys)"
  by (induction ys) simp_all

lemma mset_sort_Sort: "mset (sort_Sort lt xs) = mset xs"
  unfolding sort_Sort_def by (induction xs) (simp_all add: mset_insert_by)

lemma descending_insert_by:
  fixes key :: "'a \<Rightarrow> string"
  assumes "sorted_wrt (\<lambda>a b. key b \<le> key a) ys"
  shows "sorted_wrt (\<lambda>a b. key b \<le> key a) (insert_by (\<lambda>a b. key b < key a) x ys)"
  using assms
proof (induction ys)
  case Nil
  then show ?case by simp
next
  case (Cons y ys)
  have "set (insert_by (\<lambda>a b. key b < key a) x ys) = insert x (set ys)"
    using mset_insert_by[of "\<lambda>a b. key b < key a" x ys] by (metis set_mset_add_mset_insert set_mset_mset)
  with Cons show ?case by (auto simp: not_less)
qed

lemma descending_sort_Sort:
  fixes key :: "'a \<Rightarrow> string"
  shows "sorted_wrt (\<lambda>a b. key b \<le> key a) (sort_Sort (\<lambda>a b. key b < key a) xs)"
  unfolding sort_Sort_def by (induction xs) (simp_all add: descending_insert_by)

lemma descending_unique:
  fixes key :: "'a \<Rightarrow> string"
  assumes "sorted_wrt (\<lambda>a b. key b \<le> key a) xs"
    and "sorted_wrt (\<lambda>a b. key b \<le> key a) ys"
    and "mset xs = mset ys"
    and "distinct (map key xs)"
  shows "xs = ys"
  using assms
proof (induction xs arbitrary: ys)
  case Nil
  then show ?case by simp
next
  case (Cons x xs)
  from Cons.prems(3) obtain y ys' where ys: "ys = y # ys'"
    by (cases ys) auto
  have xy: "x = y"
  proof (rule ccontr)
    assume ne: "x \<noteq> y"
    have "x \<in> set ys" using Cons.prems(3) by (metis list.set_intros(1) mset_eq_setD)
    with ne ys have "x \<in> set ys'" by simp
    then have 1: "key x \<le> key y" using Cons.prems(2) ys by simp
    have "y \<in> set (x # xs)" using Cons.prems(3) ys by (metis list.set_intros(1) mset_eq_setD)
    with ne have yin: "y \<in> set xs" by simp
    then have 2: "key y \<le> key x" using Cons.prems(1) by simp
    from 1 2 have "key x = key y" by simp
    with yin Cons.prems(4) show False by force
  qed
  have "xs = ys'"
    using Cons.prems ys xy by (intro Cons.IH) simp_all
  with ys xy show ?case by simp
qed

lemma sorted_by_name_unique:
  fixes key :: "'a \<Rightarrow> string"
  assumes "distinct (map key xs)"
    and "mset zs = mset xs"
    and "sorted_wrt (\<lambda>a b. key b \<le> key a) zs"
  shows "zs = sort_Sort (\<lambda>a b. key b < key a) xs"
proof -
  have "mset (map key zs) = mset (map key xs)" using assms(2) by simp
  then have "distinct (map key zs)" using assms(1) by (metis mset_eq_imp_distinct_iff)
  from descending_unique[OF assms(3) descending_sort_Sort _ this]
  show ?thesis by (simp add: mset_sort_Sort assms(2))
qed

lemma sort_Sort_of_permutation:
  fixes key :: "'a \<Rightarrow> string"
  assumes "distinct (map key xs)" and "mset ys = mset xs"
  shows "sort_Sort (\<lambda>a b. key b < key a) ys = sort_Sort (\<lambda>a b. key b < key a) xs"
  by (rule sorted_by_name_unique[OF assms(1)])
    (simp_all add: mset_sort_Sort assms(2) descending_sort_Sort)

lemma strictly_descending:
  fixes key :: "'a \<Rightarrow> string"
  assumes "sorted_wrt (\<lambda>a b. key b \<le> key a) zs" and "distinct (map key zs)"
  shows "sorted_wrt (\<lambda>a b. key b < key a) zs"
  using assms
proof (induction zs)
  case Nil
  then show ?case by simp
next
  case (Cons z zs)
  have "key x < key z" if "x \<in> set zs" for x
  proof -
    have "key x \<le> key z" using Cons.prems(1) that by simp
    moreover have "key z \<notin> set (map key zs)" using Cons.prems(2) by simp
    moreover have "key x \<in> set (map key zs)" using that by simp
    ultimately have "key x \<le> key z \<and> key x \<noteq> key z" by metis
    then show ?thesis by (simp add: less_le)
  qed
  moreover have "sorted_wrt (\<lambda>a b. key b < key a) zs"
    using Cons by simp
  ultimately show ?case by simp
qed


lemma strictly_descending_sort_Sort:
  fixes key :: "'a \<Rightarrow> string"
  assumes "distinct (map key xs)"
  shows "sorted_wrt (\<lambda>a b. key b < key a) (sort_Sort (\<lambda>a b. key b < key a) xs)"
proof -
  let ?s = "sort_Sort (\<lambda>a b. key b < key a) xs"
  have "mset (map key ?s) = mset (map key xs)" by (simp add: mset_sort_Sort)
  then have "distinct (map key ?s)" using assms by (metis mset_eq_imp_distinct_iff)
  with descending_sort_Sort[of key xs] show ?thesis by (rule strictly_descending)
qed


lemma HTTPHeaderList_Less_eq: "HTTPHeaderList_Less = (\<lambda>a b. hdr_Name b < hdr_Name a)"
  by (simp add: HTTPHeaderList_Less_def fun_eq_iff)

lemma HTTPHeaderMatchList_Less_eq: "HTTPHeaderMatchList_Less = (\<lambda>a b. hm_Name b < hm_Name a)"
  by (simp add: HTTPHeaderMatchList_Less_def fun_eq_iff)

lemma range_order_keys:
  assumes "range_order_ok rng" and "distinct (map fst m)"
  shows "distinct (map fst (rng m))"
proof -
  have "mset (map fst (rng m)) = mset (map fst m)"
    using assms(1) by (simp add: range_order_ok_def)
  then show ?thesis using assms(2) by (metis mset_eq_imp_distinct_iff)
qed

lemma sorted_headers_order_irrelevant:
  assumes "range_order_ok (range_order e1)" and "range_order_ok (range_order e2)"
    and "distinct (map fst m)"
  shows "sorted_headers e1 m = sorted_headers e2 m"
proof -
  let ?mk = "\<lambda>(k, v). \<lparr>hdr_Name = k, hdr_Value = v\<rparr>"
  have k: "map hdr_Name (map ?mk xs) = map fst xs" for xs :: gomap
    by (induction xs) auto
  have d: "distinct (map hdr_Name (map ?mk (range_order e2 m)))"
    unfolding k by (rule range_order_keys[OF assms(2,3)])
  have "mset (map ?mk (range_order e1 m)) = mset (map ?mk (range_order e2 m))"
    using assms(1,2) by (simp add: range_order_ok_def)
  from sort_Sort_of_permutation[OF d this] show ?thesis
    by (simp add: sorted_headers_def HTTPHeaderList_Less_eq)
qed

lemma sorted_headers_descending:
  assumes "range_order_ok (range_order e)" and "distinct (map fst m)"
  shows "sorted_wrt (\<lambda>a b. hdr_Name b < hdr_Name a) (sorted_headers e m)"
proof -
  let ?mk = "\<lambda>(k, v). \<lparr>hdr_Name = k, hdr_Value = v\<rparr>"
  have k: "map hdr_Name (map ?mk xs) = map fst xs" for xs :: gomap
    by (induction xs) auto
  have d: "distinct (map hdr_Name (map ?mk (range_order e m)))"
    unfolding k by (rule range_order_keys[OF assms])
  from strictly_descending_sort_Sort[OF d] show ?thesis
    by (simp add: sorted_headers_def HTTPHeaderList_Less_eq)
qed

lemma matchesFromRulePath_order_irrelevant:
  assumes "range_order_ok (range_order e1)" and "range_order_ok (range_order e2)"
    and "distinct (map fst (p_Headers p))"
  shows "matchesFromRulePath e1 p = matchesFromRulePath e2 p"
proof -
  let ?mk = "\<lambda>(k, v). \<lparr>hm_Type = Some ''Exact'', hm_Name = k, hm_Value = v\<rparr>"
  have k: "map hm_Name (map ?mk xs) = map fst xs" for xs :: gomap
    by (induction xs) auto
  have d: "distinct (map hm_Name (map ?mk (range_order e2 (p_Headers p))))"
    unfolding k by (rule range_order_keys[OF assms(2,3)])
  have "mset (map ?mk (range_order e1 (p_Headers p))) = mset (map ?mk (range_order e2 (p_Headers p)))"
    using assms(1,2) by (simp add: range_order_ok_def)
  from sort_Sort_of_permutation[OF d this] show ?thesis
    by (simp add: matchesFromRulePath_def HTTPHeaderMatchList_Less_eq)
qed

lemma matchesFromRulePath_descending:
  assumes "range_order_ok (range_order e)" and "distinct (map fst (p_Headers p))"
  shows "list_all (\<lambda>mt. sorted_wrt (\<lambda>a b. hm_Name b < hm_Name a) (m_Headers mt))
     (matchesFromRulePath e p)"
proof -
  let ?mk = "\<lambda>(k, v). \<lparr>hm_Type = Some ''Exact'', hm_Name = k, hm_Value = v\<rparr>"
  have k: "map hm_Name (map ?mk xs) = map fst xs" for xs :: gomap
    by (induction xs) auto
  have d: "distinct (map hm_Name (map ?mk (range_order e (p_Headers p))))"
    unfolding k by (rule range_order_keys[OF assms])
  from strictly_descending_sort_Sort[OF d] show ?thesis
    by (simp add: matchesFromRulePath_def HTTPHeaderMatchList_Less_eq)
qed

lemma makeHTTPRouteRule_order_irrelevant:
  assumes "range_order_ok (range_order e1)" and "range_order_ok (range_order e2)"
    and "portNumPtr e1 = portNumPtr e2" and "wf_rule rule"
  shows "makeHTTPRouteRule e1 rule = makeHTTPRouteRule e2 rule"
proof -
  have split: "makeBackendRef e1 s = makeBackendRef e2 s" if "wf_split s" for s
    using that assms(3) sorted_headers_order_irrelevant[OF assms(1,2), of "sp_AppendHeaders s"]
    by (simp add: makeBackendRef_def wf_split_def)
  have "\<lparr>r_BackendRefs = map (makeBackendRef e1) (p_Splits p),
         r_Filters = (case p_AppendHeaders p of None \<Rightarrow> []
            | Some m \<Rightarrow> [header_modifier (sorted_headers e1 m)]),
         r_Matches = matchesFromRulePath e1 p\<rparr> =
        \<lparr>r_BackendRefs = map (makeBackendRef e2) (p_Splits p),
         r_Filters = (case p_AppendHeaders p of None \<Rightarrow> []
            | Some m \<Rightarrow> [header_modifier (sorted_headers e2 m)]),
         r_Matches = matchesFromRulePath e2 p\<rparr>"
    if "wf_path p" for p
  proof -
    from that have h: "distinct (map fst (p_Headers p))"
      and a: "case p_AppendHeaders p of None \<Rightarrow> True | Some m \<Rightarrow> distinct (map fst m)"
      and s: "list_all wf_split (p_Splits p)"
      by (simp_all add: wf_path_def)
    have 1: "map (makeBackendRef e1) (p_Splits p) = map (makeBackendRef e2) (p_Splits p)"
      using s split by (simp add: list_all_iff)
    have 2: "(case p_AppendHeaders p of None \<Rightarrow> []
            | Some m \<Rightarrow> [header_modifier (sorted_headers e1 m)]) =
          (case p_AppendHeaders p of None \<Rightarrow> []
            | Some m \<Rightarrow> [header_modifier (sorted_headers e2 m)])"
      using a sorted_headers_order_irrelevant[OF assms(1,2)] by (simp split: option.splits)
    from 1 2 matchesFromRulePath_order_irrelevant[OF assms(1,2) h] show ?thesis by simp
  qed
  note path = this
  show ?thesis
  proof (cases "ru_HTTP rule")
    case None
    then show ?thesis by (simp add: makeHTTPRouteRule_def)
  next
    case (Some http)
    with assms(4) have "\<forall>p\<in>set (hv_Paths http). wf_path p"
      by (simp add: wf_rule_def list_all_iff)
    with path show ?thesis
      by (auto simp: makeHTTPRouteRule_def Some)
  qed
qed

lemma makeRedirectHTTPRouteRule_order_irrelevant:
  assumes "range_order_ok (range_order e1)" and "range_order_ok (range_order e2)"
    and "portNumPtr e1 = portNumPtr e2" and "wf_rule rule"
  shows "makeRedirectHTTPRouteRule e1 rule = makeRedirectHTTPRouteRule e2 rule"
proof -
  have "matchesFromRulePath e1 p = matchesFromRulePath e2 p"
    if "ru_HTTP rule = Some http" "p \<in> set (hv_Paths http)" for p http
    using that assms(4)
    by (intro matchesFromRulePath_order_irrelevant[OF assms(1,2)])
      (simp add: wf_rule_def wf_path_def list_all_iff)
  then show ?thesis
    using assms(3) by (auto simp: makeRedirectHTTPRouteRule_def split: option.splits)
qed

text \<open>
  C7. For an ingress rule whose header maps have pairwise different keys, and for any
  two orders in which the runtime may yield the entries of these maps, the rules built by
  \<open>makeHTTPRouteRule\<close> are equal, and so are the routes built by \<open>MakeHTTPRoute\<close> and by
  \<open>MakeRedirectHTTPRoute\<close>: the header lists of the filters and of the matches are
  sorted by name, strictly descending, whatever the order of \<open>range\<close>.
\<close>

theorem C7_builder_is_deterministic:
  assumes "range_order_ok rng1" and "range_order_ok rng2" and "wf_rule rule"
  shows "makeHTTPRouteRule (env\<lparr>range_order := rng1\<rparr>) rule =
       makeHTTPRouteRule (env\<lparr>range_order := rng2\<rparr>) rule \<and>
     MakeHTTPRoute (env\<lparr>range_order := rng1\<rparr>) ing rule gatewayRef =
       MakeHTTPRoute (env\<lparr>range_order := rng2\<rparr>) ing rule gatewayRef \<and>
     MakeRedirectHTTPRoute (env\<lparr>range_order := rng1\<rparr>) ing rule gatewayRef =
       MakeRedirectHTTPRoute (env\<lparr>range_order := rng2\<rparr>) ing rule gatewayRef \<and>
     (\<forall>m. distinct (map fst m) \<longrightarrow>
        sorted_wrt (\<lambda>a b. hdr_Name b < hdr_Name a) (sorted_headers (env\<lparr>range_order := rng1\<rparr>) m)) \<and>
     (\<forall>p. distinct (map fst (p_Headers p)) \<longrightarrow>
        list_all (\<lambda>mt. sorted_wrt (\<lambda>a b. hm_Name b < hm_Name a) (m_Headers mt))
          (matchesFromRulePath (env\<lparr>range_order := rng1\<rparr>) p))"
proof -
  let ?e1 = "env\<lparr>range_order := rng1\<rparr>" and ?e2 = "env\<lparr>range_order := rng2\<rparr>"
  have ok: "range_order_ok (range_order ?e1)" "range_order_ok (range_order ?e2)"
    using assms(1,2) by simp_all
  have pn: "portNumPtr ?e1 = portNumPtr ?e2" by simp
  have wf: "wf_rule (rule\<lparr>ru_Hosts := hosts\<rparr>)" for hosts
    using assms(3) by (simp add: wf_rule_def)
  have 1: "makeHTTPRouteRule ?e1 rule = makeHTTPRouteRule ?e2 rule"
    by (rule makeHTTPRouteRule_order_irrelevant[OF ok pn assms(3)])
  have rules: "makeHTTPRouteRule ?e1 (rule\<lparr>ru_Hosts := hosts\<rparr>) =
      makeHTTPRouteRule ?e2 (rule\<lparr>ru_Hosts := hosts\<rparr>)" for hosts
    by (rule makeHTTPRouteRule_order_irrelevant[OF ok pn wf])
  have 2: "makeRedirectHTTPRouteRule ?e1 (rule\<lparr>ru_Hosts := hosts\<rparr>) =
      makeRedirectHTTPRouteRule ?e2 (rule\<lparr>ru_Hosts := hosts\<rparr>)" for hosts
    by (rule makeRedirectHTTPRouteRule_order_irrelevant[OF ok pn wf])
  have 3: "MakeHTTPRoute ?e1 ing rule gatewayRef = MakeHTTPRoute ?e2 ing rule gatewayRef"
    by (simp add: MakeHTTPRoute_def makeHTTPRouteSpec_def rules split: option.splits)
  have 4: "MakeRedirectHTTPRoute ?e1 ing rule gatewayRef = MakeRedirectHTTPRoute ?e2 ing rule gatewayRef"
    by (simp add: MakeRedirectHTTPRoute_def makeRedirectHTTPRouteSpec_def 2 split: option.splits)
  from 1 3 4 sorted_headers_descending[OF ok(1)] matchesFromRulePath_descending[OF ok(1)]
  show ?thesis by blast
qed

theorem C7_witness:
  "range_order_ok (id :: gomap \<Rightarrow> gomap)
   \<and> range_order_ok (rev :: gomap \<Rightarrow> gomap)
   \<and> wf_rule ex_rule
   \<and> makeHTTPRouteRule (ex_env\<lparr>range_order := id\<rparr>) ex_rule
       = makeHTTPRouteRule (ex_env\<lparr>range_order := rev\<rparr>) ex_rule
   \<and> (case makeHTTPRouteRule (ex_env\<lparr>range_order := rev\<rparr>) ex_rule of
         Panics p \<Rightarrow> []
       | Returns rules \<Rightarrow> map (map m_Headers \<circ> r_Matches) rules)
       = [[[\<lparr>hm_Type = Some ''Exact'', hm_Name = ''x-b'', hm_Value = ''1''\<rparr>,
            \<lparr>hm_Type = Some ''Exact'', hm_Name = ''x-a'', hm_Value = ''2''\<rparr>]]]
   \<and> (case makeHTTPRouteRule (ex_env\<lparr>range_order := rev\<rparr>) ex_rule of
         Panics p \<Rightarrow> []
       | Returns rules \<Rightarrow> map (map f_RequestHeaderModifier_Set \<circ> r_Filters) rules)
       = [[Some [\<lparr>hdr_Name = ''k2'', hdr_Value = ''v2''\<rparr>,
                 \<lparr>hdr_Name = ''k1'', hdr_Value = ''v1''\<rparr>]]]"
proof -
  have ok1: "range_order_ok (id :: gomap \<Rightarrow> gomap)"
    by (simp add: range_order_ok_def)
  have ok2: "range_order_ok (rev :: gomap \<Rightarrow> gomap)"
    by (simp add: range_order_ok_def)
  have wf: "wf_rule ex_rule"
    by (simp add: wf_rule_def wf_path_def wf_split_def ex_rule_def)
  have matches: "(case makeHTTPRouteRule (ex_env\<lparr>range_order := rev\<rparr>) ex_rule of
         Panics p \<Rightarrow> []
       | Returns rules \<Rightarrow> map (map m_Headers \<circ> r_Matches) rules)
       = [[[\<lparr>hm_Type = Some ''Exact'', hm_Name = ''x-b'', hm_Value = ''1''\<rparr>,
            \<lparr>hm_Type = Some ''Exact'', hm_Name = ''x-a'', hm_Value = ''2''\<rparr>]]]"
    by (simp add: makeHTTPRouteRule_def matchesFromRulePath_def sort_Sort_def
        HTTPHeaderMatchList_Less_def ex_rule_def ex_env_def)
  have filters: "(case makeHTTPRouteRule (ex_env\<lparr>range_order := rev\<rparr>) ex_rule of
         Panics p \<Rightarrow> []
       | Returns rules \<Rightarrow> map (map f_RequestHeaderModifier_Set \<circ> r_Filters) rules)
       = [[Some [\<lparr>hdr_Name = ''k2'', hdr_Value = ''v2''\<rparr>,
                 \<lparr>hdr_Name = ''k1'', hdr_Value = ''v1''\<rparr>]]]"
    by (simp add: makeHTTPRouteRule_def sorted_headers_def header_modifier_def sort_Sort_def
        HTTPHeaderList_Less_def ex_rule_def ex_env_def)
  from C7_builder_is_deterministic[OF ok1 ok2 wf, of ex_env]
  show ?thesis
    using ok1 ok2 wf matches filters by simp
qed

end
